theory Spec2Isabelle
  imports Complex_Main
begin

section \<open>The RDS log downloader (download-rds-logs.py)\<close>

text \<open>
  The script lists the log files of a database instance and downloads each of them in
  chunks. Everything happens in the function \<open>_main\<close>; its local variables, the local
  file system and the sequence of observable actions (log calls, sleeps, requests) form
  the state of the model. The two remote operations are driven by scripts: lists of
  outcomes, one per call, in call order. A call for which the script holds no outcome
  leaves the run \<open>Starved\<close> in the state reached so far.

  Scope of the model: strings are byte strings (the \<open>str\<close> of Python 2, for which the
  script was written: it writes \<open>str\<close> to a file opened in binary mode); the file system
  holds regular files only and its operations succeed, so the creation of the output
  directory is not represented; \<open>re.search\<close> with the configured pattern is a predicate
  on file names; the listing is a well-formed list of descriptors.
\<close>

subsection \<open>Python numerics used by the script\<close>

text \<open>\<open>int.bit_length\<close>: the number of binary digits of a natural number.\<close>

fun bit_length :: "nat \<Rightarrow> nat" where
  "bit_length n = (if n = 0 then 0 else Suc (bit_length (n div 2)))"

declare bit_length.simps [simp del]

text \<open>
  \<open>nearest_even p s\<close> is the integer nearest to \<open>p / 2 ^ s\<close>, a tie going to the even
  neighbour: the rounding of IEEE 754 binary64 arithmetic.
\<close>

definition nearest_even :: "int \<Rightarrow> nat \<Rightarrow> int" where
  "nearest_even p s =
     (let q = p div 2 ^ s; r = p mod 2 ^ s
      in if 2 * r < 2 ^ s then q
         else if 2 ^ s < 2 * r then q + 1
         else if even q then q else q + 1)"

text \<open>
  \<open>round53 p\<close> rounds the integer \<open>p\<close> to 53 significant bits. Scaling by a power of two
  does not change the significand, so the double nearest to \<open>p / 2 ^ d\<close> is
  \<open>round53 p / 2 ^ d\<close> as long as the exponent stays in range.
\<close>

definition round53 :: "int \<Rightarrow> int" where
  "round53 p =
     (let b = bit_length (nat \<bar>p\<bar>)
      in if b \<le> 53 then p else nearest_even p (b - 53) * 2 ^ (b - 53))"

datatype error = KeyError string | OverflowError | UnboundLocalError string

text \<open>
  The conversion of a Python integer to a float, as \<open>int * float\<close> performs it: the
  nearest double, \<open>OverflowError\<close> when that is out of range. The value is an integer.
\<close>

definition float_of_int :: "int \<Rightarrow> error + int" where
  "float_of_int n =
     (let m = round53 n in if 2 ^ 1024 \<le> \<bar>m\<bar> then Inl OverflowError else Inr m)"

text \<open>
  The literal \<open>0.1\<close> is the double \<open>3602879701896397 / 2 ^ 55\<close>. \<open>mul_tenth n\<close> is the
  value of the expression \<open>n * 0.1\<close> for an integer \<open>n\<close>: convert, multiply, round.
\<close>

definition tenth_mantissa :: int where
  "tenth_mantissa = 3602879701896397"

definition mul_tenth :: "int \<Rightarrow> error + rat" where
  "mul_tenth n =
     (case float_of_int n of
        Inl e \<Rightarrow> Inl e
      | Inr m \<Rightarrow> Inr (of_int (round53 (m * tenth_mantissa)) / 2 ^ 55))"

text \<open>
  \<open>math.pow(2, k)\<close> for a counter \<open>k\<close>: the double \<open>2 ^ k\<close>, exact up to \<open>k = 1023\<close>;
  beyond that \<open>math.pow\<close> raises \<open>OverflowError\<close>.
\<close>

definition math_pow2 :: "nat \<Rightarrow> error + rat" where
  "math_pow2 k = (if 1023 < k then Inl OverflowError else Inr (2 ^ k))"

subsection \<open>Strings and paths\<close>

definition endswith :: "string \<Rightarrow> string \<Rightarrow> bool" where
  "endswith s suf \<longleftrightarrow>
     length suf \<le> length s \<and> drop (length s - length suf) s = suf"

definition truncated_sentinel :: string where
  "truncated_sentinel = ''[Your log message was truncated]'' @ [CHR 0x0A]"

text \<open>\<open>os.path.basename\<close> and \<open>os.path.join\<close> of \<open>posixpath\<close>.\<close>

definition basename :: "string \<Rightarrow> string" where
  "basename p = rev (takeWhile (\<lambda>c. c \<noteq> CHR ''/'') (rev p))"

definition path_join :: "string \<Rightarrow> string \<Rightarrow> string" where
  "path_join a b =
     (if b \<noteq> [] \<and> hd b = CHR ''/'' then b
      else if a = [] \<or> last a = CHR ''/'' then a @ b
      else a @ ''/'' @ b)"

subsection \<open>Data\<close>

text \<open>
  The result of \<open>download_db_log_file_portion\<close> is a dictionary; each of the three keys
  the script reads may be absent (\<open>None\<close>). \<open>LogFileData\<close> may also be present with the
  value \<open>None\<close> of Python (\<open>Some None\<close>).
\<close>

record response =
  LogFileData :: "string option option"
  AdditionalDataPending :: "bool option"
  Marker :: "string option"

record descriptor =
  LogFileName :: string
  Size :: int

text \<open>The parsed command line, as far as \<open>_main\<close> reads it.\<close>

record args =
  arg_instance :: string
  arg_output_dir :: string
  arg_logfile_match :: "(string \<Rightarrow> bool) option"
  arg_lines :: int
  arg_backoff :: int

text \<open>The outcome of one remote call: an exception, or a result.\<close>

datatype 'a outcome = Raises | Returns 'a

text \<open>
  Observable actions, in program order: the calls of \<open>logging\<close>, \<open>time.sleep\<close>, the two
  client operations and how each call came back.
\<close>

datatype event =
    Call_describe string
  | Call_download string string string int
  | Call_raised
  | Call_returned
  | Sleep rat
  | Warning_sleep nat rat
  | Error_describing string
  | Debug_log descriptor
  | Info_skipping string
  | Info_exists_skipping string
  | Info_size_mismatch string
  | Info_sizes nat int
  | Info_requesting string string nat
  | Info_pending bool string
  | Info_truncated
  | Info_retrying int
  | Error_no_data string
  | Debug_result response
  | Error_too_many string

text \<open>
  The state: the local files (path to contents), the actions so far, and the local
  variables of \<open>_main\<close> that the download loop updates.
\<close>

record state =
  fs :: "string \<rightharpoonup> string"
  trace :: "event list"
  lines :: int
  chunk :: nat
  more_data :: bool
  marker :: string
  sleepcount :: nat

datatype 'a run = Done 'a | Crashed error 'a | Starved 'a

definition emit :: "event \<Rightarrow> state \<Rightarrow> state" where
  "emit e s = s\<lparr>trace := trace s @ [e]\<rparr>"

text \<open>\<open>f.write(data)\<close> on the open destination file.\<close>

definition write_file :: "string \<Rightarrow> string \<Rightarrow> state \<Rightarrow> state" where
  "write_file dest data s =
     s\<lparr>fs := (fs s)(dest \<mapsto> (case fs s dest of None \<Rightarrow> data | Some c \<Rightarrow> c @ data))\<rparr>"

subsection \<open>The exception handler of both retry loops (lines 91-94 and 135-138)\<close>

definition backoff_sleep :: "state \<Rightarrow> error + state" where
  "backoff_sleep s =
     (case math_pow2 (sleepcount s) of
        Inl e \<Rightarrow> Inl e
      | Inr sleeptime \<Rightarrow>
          Inr ((emit (Sleep sleeptime) (emit (Warning_sleep (sleepcount s) sleeptime) s))
                 \<lparr>sleepcount := Suc (sleepcount s)\<rparr>))"

subsection \<open>The listing loop (lines 83-95)\<close>

text \<open>The second component is the variable \<open>response\<close>, \<open>None\<close> while it is unbound.\<close>

fun describe_loop ::
  "args \<Rightarrow> descriptor list outcome list \<Rightarrow> state \<Rightarrow> (state \<times> descriptor list option) run"
where
  "describe_loop a [] s =
     (if int (sleepcount s) < arg_backoff a then Starved (s, None) else Done (s, None))"
| "describe_loop a (x # xs) s =
     (if int (sleepcount s) < arg_backoff a then
        (case x of
           Returns r \<Rightarrow> Done (emit Call_returned (emit (Call_describe (arg_instance a)) s), Some r)
         | Raises \<Rightarrow>
             (case backoff_sleep (emit Call_raised (emit (Call_describe (arg_instance a)) s)) of
                Inl e \<Rightarrow> Crashed e (emit Call_raised (emit (Call_describe (arg_instance a)) s), None)
              | Inr s' \<Rightarrow> describe_loop a xs s'))
      else Done (s, None))"

subsection \<open>One successful chunk (lines 140-160)\<close>

text \<open>Lines 155-160: what follows the handling of the data.\<close>

definition advance :: "response \<Rightarrow> state \<Rightarrow> state run" where
  "advance result s =
     (let s1 = s\<lparr>more_data := (case AdditionalDataPending result of None \<Rightarrow> False | Some p \<Rightarrow> p),
                 marker := (case Marker result of None \<Rightarrow> marker s | Some m \<Rightarrow> m),
                 chunk := Suc (chunk s)\<rparr>
      in case LogFileData result of
           None \<Rightarrow> Crashed (KeyError ''LogFileData'') s1
         | Some _ \<Rightarrow> Done (emit (Debug_result (result\<lparr>LogFileData := None\<rparr>)) s1))"

text \<open>
  \<open>Done\<close> is the end of the iteration (by \<open>continue\<close> or at the end of the body),
  \<open>Crashed\<close> an exception that leaves \<open>_main\<close>.
\<close>

definition process_result :: "args \<Rightarrow> string \<Rightarrow> string \<Rightarrow> response \<Rightarrow> state \<Rightarrow> state run" where
  "process_result a logfilename destination result s0 =
     (let s = s0\<lparr>sleepcount := 0\<rparr>
      in case AdditionalDataPending result of
           None \<Rightarrow> Crashed (KeyError ''AdditionalDataPending'') s
         | Some p \<Rightarrow>
        (case Marker result of
           None \<Rightarrow> Crashed (KeyError ''Marker'') s
         | Some m \<Rightarrow>
        (let s1 = emit (Info_pending p m) s
         in case LogFileData result of
              Some (Some data) \<Rightarrow>
                if endswith data truncated_sentinel then
                  (let s2 = emit Info_truncated s1
                   in case mul_tenth (arg_lines a) of
                        Inl e \<Rightarrow> Crashed e s2
                      | Inr floor_lines \<Rightarrow>
                          if floor_lines < of_int (lines s2) then
                            Done (emit (Info_retrying (lines s2 - 10)) (s2\<lparr>lines := lines s2 - 10\<rparr>))
                          else advance result (write_file destination data s2))
                else advance result (write_file destination data s1)
            | _ \<Rightarrow> advance result (emit (Error_no_data logfilename) s1))))"

subsection \<open>The pagination loop (lines 125-160)\<close>

text \<open>Lines 126-133: the log line and the call, for the marker and line count at hand.\<close>

definition request_chunk :: "args \<Rightarrow> string \<Rightarrow> state \<Rightarrow> state" where
  "request_chunk a logfilename s =
     emit (Call_download (arg_instance a) logfilename (marker s) (lines s))
       (emit (Info_requesting logfilename (marker s) (chunk s)) s)"

text \<open>The result holds the part of the script that the loop has not consumed.\<close>

fun download_loop ::
  "args \<Rightarrow> string \<Rightarrow> string \<Rightarrow> response outcome list \<Rightarrow> state
     \<Rightarrow> state run \<times> response outcome list"
where
  "download_loop a logfilename destination [] s =
     (if more_data s \<and> int (sleepcount s) < arg_backoff a then (Starved s, [])
      else (Done s, []))"
| "download_loop a logfilename destination (x # xs) s =
     (if more_data s \<and> int (sleepcount s) < arg_backoff a then
        (case x of
           Raises \<Rightarrow>
             (case backoff_sleep (emit Call_raised (request_chunk a logfilename s)) of
                Inl e \<Rightarrow> (Crashed e (emit Call_raised (request_chunk a logfilename s)), xs)
              | Inr s' \<Rightarrow> download_loop a logfilename destination xs s')
         | Returns result \<Rightarrow>
             (case process_result a logfilename destination result
                     (emit Call_returned (request_chunk a logfilename s)) of
                Done s' \<Rightarrow> download_loop a logfilename destination xs s'
              | Crashed e s' \<Rightarrow> (Crashed e s', xs)
              | Starved s' \<Rightarrow> (Starved s', xs)))
      else (Done s, x # xs))"

subsection \<open>One listed file (lines 100-163)\<close>

definition destination_of :: "args \<Rightarrow> descriptor \<Rightarrow> string" where
  "destination_of a logfile = path_join (arg_output_dir a) (basename (LogFileName logfile))"

text \<open>
  Lines 100-118: the name filter and the comparison with an existing local file.
  \<open>Inl\<close> is the \<open>continue\<close> of a skipped file, \<open>Inr\<close> the state in which the download
  begins.
\<close>

definition skip_check :: "args \<Rightarrow> descriptor \<Rightarrow> state \<Rightarrow> state + state" where
  "skip_check a logfile s0 =
     (let s = (emit (Debug_log logfile) s0)\<lparr>lines := arg_lines a\<rparr>;
          logfilename = LogFileName logfile;
          destination = destination_of a logfile
      in if (case arg_logfile_match a of None \<Rightarrow> False | Some search \<Rightarrow> \<not> search logfilename)
         then Inl (emit (Info_skipping logfilename) s)
         else
           (case fs s destination of
              Some contents \<Rightarrow>
                if int (length contents) = Size logfile
                then Inl (emit (Info_exists_skipping logfilename) s)
                else Inr ((emit (Info_sizes (length contents) (Size logfile))
                             (emit (Info_size_mismatch logfilename) s))
                            \<lparr>fs := (fs s)(destination := None)\<rparr>)
            | None \<Rightarrow> Inr s))"

text \<open>Lines 120-124: the destination is created empty and the loop variables are set.\<close>

definition open_file :: "string \<Rightarrow> state \<Rightarrow> state" where
  "open_file destination s =
     s\<lparr>fs := (fs s)(destination \<mapsto> []), chunk := 0, more_data := True,
       marker := ''0'', sleepcount := 0\<rparr>"

text \<open>Lines 120-163: the file is filled by the loop; the check after the loop.\<close>

definition download_file ::
  "args \<Rightarrow> string \<Rightarrow> string \<Rightarrow> response outcome list \<Rightarrow> state
     \<Rightarrow> state run \<times> response outcome list"
where
  "download_file a logfilename destination script s =
     (let result = download_loop a logfilename destination script (open_file destination s)
      in case fst result of
           Done s' \<Rightarrow>
             if int (sleepcount s') = arg_backoff a
             then (Done (emit (Error_too_many logfilename) s'), snd result)
             else result
         | _ \<Rightarrow> result)"

definition process_log ::
  "args \<Rightarrow> descriptor \<Rightarrow> response outcome list \<Rightarrow> state
     \<Rightarrow> state run \<times> response outcome list"
where
  "process_log a logfile script s =
     (case skip_check a logfile s of
        Inl s' \<Rightarrow> (Done s', script)
      | Inr s' \<Rightarrow>
          download_file a (LogFileName logfile) (destination_of a logfile) script s')"

text \<open>The \<open>for\<close> loop over the listing (line 99).\<close>

fun for_logs ::
  "args \<Rightarrow> descriptor list \<Rightarrow> response outcome list \<Rightarrow> state
     \<Rightarrow> state run \<times> response outcome list"
where
  "for_logs a [] script s = (Done s, script)"
| "for_logs a (logfile # logs) script s =
     (let result = process_log a logfile script s
      in case fst result of
           Done s' \<Rightarrow> for_logs a logs (snd result) s'
         | _ \<Rightarrow> result)"

subsection \<open>The program (lines 83-163)\<close>

text \<open>
  The variables of the download loop are unbound until a file is processed; their
  values in the initial state are never read.
\<close>

definition initial_state :: "(string \<rightharpoonup> string) \<Rightarrow> state" where
  "initial_state files =
     \<lparr>fs = files, trace = [], lines = 0, chunk = 0, more_data = False, marker = [],
      sleepcount = 0\<rparr>"

definition main ::
  "args \<Rightarrow> descriptor list outcome list \<Rightarrow> response outcome list \<Rightarrow> (string \<rightharpoonup> string)
     \<Rightarrow> state run"
where
  "main a listing_script chunk_script files =
     (case describe_loop a listing_script (initial_state files) of
        Done (s, response) \<Rightarrow>
          if int (sleepcount s) = arg_backoff a
          then Done (emit (Error_describing (arg_instance a)) s)
          else (case response of
                  None \<Rightarrow> Crashed (UnboundLocalError ''response'') s
                | Some logs \<Rightarrow> fst (for_logs a logs chunk_script s))
      | Crashed e (s, response) \<Rightarrow> Crashed e s
      | Starved (s, response) \<Rightarrow> Starved s)"

section \<open>Reading a run\<close>

text \<open>The state in which a run ended or stopped.\<close>

fun final :: "'a run \<Rightarrow> 'a" where
  "final (Done s) = s"
| "final (Crashed e s) = s"
| "final (Starved s) = s"

text \<open>The state without the record of actions: the files and the variables.\<close>

definition untraced :: "state \<Rightarrow> state" where
  "untraced s = s\<lparr>trace := []\<rparr>"

text \<open>The numbers of lines asked of \<open>download_db_log_file_portion\<close>, in call order.\<close>

fun requested :: "event list \<Rightarrow> int list" where
  "requested [] = []"
| "requested (Call_download i f m n # es) = n # requested es"
| "requested (e # es) = requested es"

text \<open>The durations passed to \<open>time.sleep\<close>, in call order.\<close>

fun sleeps :: "event list \<Rightarrow> rat list" where
  "sleeps [] = []"
| "sleeps (Sleep t # es) = t # sleeps es"
| "sleeps (e # es) = sleeps es"

text \<open>The number of remote calls.\<close>

fun calls :: "event list \<Rightarrow> nat" where
  "calls [] = 0"
| "calls (Call_describe i # es) = Suc (calls es)"
| "calls (Call_download i f m n # es) = Suc (calls es)"
| "calls (e # es) = calls es"

text \<open>All truncation retries (the \<open>continue\<close> of line 149).\<close>

fun retries :: "event list \<Rightarrow> nat" where
  "retries [] = 0"
| "retries (Info_retrying n # es) = Suc (retries es)"
| "retries (e # es) = retries es"

text \<open>
  The truncation retries that answer a request for marker \<open>m\<close>; \<open>cur\<close> is the marker of
  the latest request.
\<close>

fun retries_at :: "string \<Rightarrow> string \<Rightarrow> event list \<Rightarrow> nat" where
  "retries_at m cur [] = 0"
| "retries_at m cur (Call_download i f mk n # es) = retries_at m mk es"
| "retries_at m cur (Info_retrying n # es) = (if cur = m then 1 else 0) + retries_at m cur es"
| "retries_at m cur (e # es) = retries_at m cur es"

text \<open>
  A line count \<open>n\<close> is near the floor of the configured count \<open>N\<close> when it is above a
  tenth of \<open>N\<close> less 10; for \<open>N\<close> a multiple of 100 it is a multiple of 10 and at least a
  tenth of \<open>N\<close>.
\<close>

definition near_floor :: "int \<Rightarrow> int \<Rightarrow> bool" where
  "near_floor N n \<longleftrightarrow> N - 100 < 10 * n \<and> (100 dvd N \<longrightarrow> 10 dvd n \<and> N \<le> 10 * n)"

text \<open>How many times 10 can be taken off \<open>l\<close> while it is above a tenth of \<open>N\<close>.\<close>

definition retries_left :: "int \<Rightarrow> int \<Rightarrow> nat" where
  "retries_left N l = (if N < 10 * l then nat ((10 * l - N + 99) div 100) else 0)"

text \<open>
  The backoff schedule read off a trace. The counter of consecutive failures starts at 0
  in each scope (the listing, each listed file) and after each call that returned; a
  sleep is in schedule when it lasts \<open>2 ^ k\<close> after \<open>k\<close> consecutive failures. \<open>None\<close> is
  a sleep out of schedule.
\<close>

fun schedule_step :: "nat option \<Rightarrow> event \<Rightarrow> nat option" where
  "schedule_step None e = None"
| "schedule_step (Some k) (Sleep t) = (if t = 2 ^ k then Some (Suc k) else None)"
| "schedule_step (Some k) Call_returned = Some 0"
| "schedule_step (Some k) (Debug_log d) = Some 0"
| "schedule_step (Some k) e = Some k"

definition consecutive_failures :: "event list \<Rightarrow> nat option" where
  "consecutive_failures es = foldl schedule_step (Some 0) es"

definition backoff_schedule :: "event list \<Rightarrow> bool" where
  "backoff_schedule es \<longleftrightarrow> consecutive_failures es \<noteq> None"

text \<open>The state after a caught exception: lines 91-94 and 135-138 without the overflow.\<close>

definition slept :: "state \<Rightarrow> state" where
  "slept s =
     (emit (Sleep (2 ^ sleepcount s)) (emit (Warning_sleep (sleepcount s) (2 ^ sleepcount s)) s))
       \<lparr>sleepcount := Suc (sleepcount s)\<rparr>"

text \<open>
  The state after \<open>k\<close> failed attempts in a row, each attempt leaving the events \<open>pre\<close>
  before its sleep.
\<close>

fun failed_attempts :: "event list \<Rightarrow> nat \<Rightarrow> state \<Rightarrow> state" where
  "failed_attempts pre 0 s = s"
| "failed_attempts pre (Suc k) s =
     failed_attempts pre k (slept (s\<lparr>trace := trace s @ pre\<rparr>))"

text \<open>The events of one attempt of each loop that ends in an exception.\<close>

definition describe_attempt :: "args \<Rightarrow> event list" where
  "describe_attempt a = [Call_describe (arg_instance a), Call_raised]"

definition download_attempt :: "args \<Rightarrow> string \<Rightarrow> state \<Rightarrow> event list" where
  "download_attempt a logfilename s =
     [Info_requesting logfilename (marker s) (chunk s),
      Call_download (arg_instance a) logfilename (marker s) (lines s),
      Call_raised]"

section \<open>Example inputs\<close>

definition example_args :: "int \<Rightarrow> int \<Rightarrow> args" where
  "example_args n b =
     \<lparr>arg_instance = ''db'', arg_output_dir = ''out'', arg_logfile_match = None,
      arg_lines = n, arg_backoff = b\<rparr>"

definition example_log :: descriptor where
  "example_log = \<lparr>LogFileName = ''error/mysql.log'', Size = 7\<rparr>"

definition other_log :: descriptor where
  "other_log = \<lparr>LogFileName = ''slow.log'', Size = 2\<rparr>"

definition chunk_response :: "string \<Rightarrow> bool \<Rightarrow> string \<Rightarrow> response" where
  "chunk_response data pending m =
     \<lparr>LogFileData = Some (Some data), AdditionalDataPending = Some pending, Marker = Some m\<rparr>"

definition truncated_response :: response where
  "truncated_response = chunk_response (''ab'' @ truncated_sentinel) True ''7''"

definition exhausting_script :: "response outcome list" where
  "exhausting_script =
     [Returns (chunk_response ''abc'' True ''1''), Raises, Raises,
      Returns (chunk_response ''zz'' False ''2'')]"

section \<open>Floating point: the threshold of line 146\<close>

lemma bit_length_le: "n < 2 ^ k \<Longrightarrow> bit_length n \<le> k"
proof (induction k arbitrary: n)
  case 0
  then show ?case by (simp add: bit_length.simps)
next
  case (Suc k)
  show ?case
  proof (cases "n = 0")
    case True
    then show ?thesis by (simp add: bit_length.simps)
  next
    case False
    from Suc.prems have "n div 2 < 2 ^ k" by simp
    then have "bit_length (n div 2) \<le> k" by (rule Suc.IH)
    with False show ?thesis by (subst bit_length.simps) simp
  qed
qed

lemma nearest_even_ge: "p div 2 ^ s \<le> nearest_even p s"
  by (simp add: nearest_even_def Let_def)

text \<open>Rounding moves a value by at most half a unit in the last place.\<close>

lemma nearest_even_err: "2 * \<bar>nearest_even p s * 2 ^ s - p\<bar> \<le> 2 ^ s"
proof -
  define q where "q = p div 2 ^ s"
  define r where "r = p mod 2 ^ s"
  have p: "p = q * 2 ^ s + r" by (simp only: q_def r_def div_mult_mod_eq)
  have r: "0 \<le> r" "r < 2 ^ s" by (simp_all add: r_def)
  have "nearest_even p s = q \<and> 2 * r \<le> 2 ^ s \<or> nearest_even p s = q + 1 \<and> 2 ^ s \<le> 2 * r"
    unfolding nearest_even_def Let_def q_def [symmetric] r_def [symmetric] by auto
  then show ?thesis
  proof
    assume a: "nearest_even p s = q \<and> 2 * r \<le> 2 ^ s"
    then have "nearest_even p s * 2 ^ s - p = - r" by (simp add: p)
    with a r show ?thesis by simp
  next
    assume a: "nearest_even p s = q + 1 \<and> 2 ^ s \<le> 2 * r"
    then have "nearest_even p s * 2 ^ s - p = 2 ^ s - r" by (simp add: p algebra_simps)
    with a r show ?thesis by simp
  qed
qed

lemma round53_err:
  assumes "\<bar>p\<bar> < 2 ^ 104"
  shows "\<bar>round53 p - p\<bar> \<le> 2 ^ 50"
proof -
  define b where "b = bit_length (nat \<bar>p\<bar>)"
  have "nat \<bar>p\<bar> < 2 ^ 104" using assms by (simp add: nat_less_iff)
  then have b: "b \<le> 104" unfolding b_def by (rule bit_length_le)
  show ?thesis
  proof (cases "b \<le> 53")
    case True
    then show ?thesis by (simp add: round53_def b_def [symmetric])
  next
    case False
    then have R: "round53 p = nearest_even p (b - 53) * 2 ^ (b - 53)"
      by (simp add: round53_def b_def [symmetric])
    have "b - 53 \<le> 51" using b by simp
    then have "(2::int) ^ (b - 53) \<le> 2 ^ 51" by (intro power_increasing) simp_all
    moreover have "2 * \<bar>round53 p - p\<bar> \<le> 2 ^ (b - 53)" unfolding R by (rule nearest_even_err)
    ultimately show ?thesis by simp
  qed
qed

text \<open>Rounding does not cross a value that is itself representable.\<close>

lemma round53_ge_multiple:
  assumes "\<bar>p\<bar> < 2 ^ 104" and "l * 2 ^ 55 \<le> p"
  shows "l * 2 ^ 55 \<le> round53 p"
proof -
  define b where "b = bit_length (nat \<bar>p\<bar>)"
  have "nat \<bar>p\<bar> < 2 ^ 104" using assms(1) by (simp add: nat_less_iff)
  then have b: "b \<le> 104" unfolding b_def by (rule bit_length_le)
  show ?thesis
  proof (cases "b \<le> 53")
    case True
    then show ?thesis using assms(2) by (simp add: round53_def b_def [symmetric])
  next
    case False
    define s where "s = b - 53"
    have s: "s \<le> 55" using b by (simp add: s_def)
    have R: "round53 p = nearest_even p s * 2 ^ s"
      using False by (simp add: round53_def b_def [symmetric] s_def)
    have split: "(2::int) ^ 55 = 2 ^ (55 - s) * 2 ^ s"
      using s by (simp add: power_add [symmetric])
    have eq: "l * 2 ^ 55 = l * 2 ^ (55 - s) * 2 ^ s"
      by (simp only: split mult.assoc)
    have "l * 2 ^ (55 - s) * 2 ^ s \<le> p" using assms(2) by (simp only: eq)
    then have "(l * 2 ^ (55 - s) * 2 ^ s) div 2 ^ s \<le> p div 2 ^ s"
      by (rule zdiv_mono1) simp
    then have "l * 2 ^ (55 - s) \<le> p div 2 ^ s" by simp
    also have "\<dots> \<le> nearest_even p s" by (rule nearest_even_ge)
    finally have "l * 2 ^ (55 - s) * 2 ^ s \<le> nearest_even p s * 2 ^ s" by simp
    then show ?thesis by (simp only: R eq)
  qed
qed

text \<open>
  For a line count below \<open>2 ^ 52\<close> the comparison \<open>lines > args.lines * 0.1\<close> of line 146
  decides exactly whether \<open>lines\<close> is above a tenth of \<open>args.lines\<close>.
\<close>

lemma mul_tenth_cmp:
  assumes "0 \<le> n" and "n < 2 ^ 52"
  shows "\<exists>t. mul_tenth n = Inr t \<and> (\<forall>l::int. t < of_int l \<longleftrightarrow> n < 10 * l)"
proof -
  have "nat \<bar>n\<bar> < 2 ^ 53" using assms by (simp add: nat_less_iff)
  then have "bit_length (nat \<bar>n\<bar>) \<le> 53" by (rule bit_length_le)
  then have rn: "round53 n = n" by (simp add: round53_def)
  have fl: "float_of_int n = Inr n" using assms by (simp add: float_of_int_def rn)
  define p where "p = n * tenth_mantissa"
  define R where "R = round53 p"
  have p10: "10 * p = n * 2 ^ 55 + 2 * n" by (simp add: p_def tenth_mantissa_def)
  have p0: "0 \<le> p" using assms by (simp add: p_def tenth_mantissa_def)
  have "10 * p < 10 * 2 ^ 104" using assms unfolding p10 by simp
  then have pb: "\<bar>p\<bar> < 2 ^ 104" using p0 by simp
  have err: "\<bar>R - p\<bar> \<le> 2 ^ 50" unfolding R_def using pb by (rule round53_err)
  have mt: "mul_tenth n = Inr (of_int R / 2 ^ 55)"
    by (simp add: mul_tenth_def fl R_def p_def)
  have cmp: "(of_int R / 2 ^ 55 < (of_int l :: rat)) \<longleftrightarrow> R < l * 2 ^ 55" for l
  proof -
    have "(of_int R / 2 ^ 55 < (of_int l :: rat)) \<longleftrightarrow> (of_int R :: rat) < of_int l * 2 ^ 55"
      by (simp add: pos_divide_less_eq)
    also have "\<dots> \<longleftrightarrow> (of_int R :: rat) < of_int (l * 2 ^ 55)" by simp
    also have "\<dots> \<longleftrightarrow> R < l * 2 ^ 55" by (simp only: of_int_less_iff)
    finally show ?thesis .
  qed
  have main: "R < l * 2 ^ 55 \<longleftrightarrow> n < 10 * l" for l
  proof
    assume lt: "R < l * 2 ^ 55"
    show "n < 10 * l"
    proof (rule ccontr)
      assume "\<not> n < 10 * l"
      then consider "10 * l = n" | "10 * l \<le> n - 1" by linarith
      then show False
      proof cases
        case 1
        then have "10 * (l * 2 ^ 55) \<le> 10 * p" using assms unfolding p10 by simp
        then have "l * 2 ^ 55 \<le> p" by simp
        with pb have "l * 2 ^ 55 \<le> round53 p" by (rule round53_ge_multiple)
        with lt show False by (simp add: R_def)
      next
        case 2
        then have "10 * l * 2 ^ 55 \<le> (n - 1) * 2 ^ 55" by simp
        with err p10 lt assms show False by simp
      qed
    qed
  next
    assume "n < 10 * l"
    then have "(n + 1) * 2 ^ 55 \<le> 10 * l * 2 ^ 55" by simp
    with err p10 assms show "R < l * 2 ^ 55" by simp
  qed
  show ?thesis
  proof (intro exI conjI allI)
    show "mul_tenth n = Inr (of_int R / 2 ^ 55)" by (rule mt)
  next
    fix l :: int
    show "(of_int R / 2 ^ 55 < (of_int l :: rat)) \<longleftrightarrow> n < 10 * l"
      by (simp only: cmp main)
  qed
qed

section \<open>Basic facts about the state\<close>

lemma emit_simps [simp]:
  "fs (emit e s) = fs s" "lines (emit e s) = lines s" "chunk (emit e s) = chunk s"
  "more_data (emit e s) = more_data s" "marker (emit e s) = marker s"
  "sleepcount (emit e s) = sleepcount s" "trace (emit e s) = trace s @ [e]"
  by (simp_all add: emit_def)

lemma write_file_simps [simp]:
  "lines (write_file d x s) = lines s" "chunk (write_file d x s) = chunk s"
  "more_data (write_file d x s) = more_data s" "marker (write_file d x s) = marker s"
  "sleepcount (write_file d x s) = sleepcount s" "trace (write_file d x s) = trace s"
  by (simp_all add: write_file_def)

lemma destination_example [simp]:
  "destination_of (example_args n b) example_log = ''out/mysql.log''"
  by (simp add: destination_of_def example_args_def example_log_def path_join_def basename_def)

lemma destination_other [simp]:
  "destination_of (example_args n b) other_log = ''out/slow.log''"
  by (simp add: destination_of_def example_args_def other_log_def path_join_def basename_def)

lemma example_args_simps [simp]:
  "arg_instance (example_args n b) = ''db''" "arg_output_dir (example_args n b) = ''out''"
  "arg_logfile_match (example_args n b) = None" "arg_lines (example_args n b) = n"
  "arg_backoff (example_args n b) = b"
  by (simp_all add: example_args_def)

lemma example_log_simps [simp]:
  "LogFileName example_log = ''error/mysql.log''" "Size example_log = 7"
  "LogFileName other_log = ''slow.log''" "Size other_log = 2"
  by (simp_all add: example_log_def other_log_def)

lemma endswith_example [simp]: "endswith (''ab'' @ truncated_sentinel) truncated_sentinel"
  by (simp add: endswith_def truncated_sentinel_def)

lemma endswith_short [simp]: "length s < 33 \<Longrightarrow> \<not> endswith s truncated_sentinel"
  by (simp add: endswith_def truncated_sentinel_def)

section \<open>Traces\<close>

lemma requested_append [simp]: "requested (xs @ ys) = requested xs @ requested ys"
  by (induction xs rule: requested.induct) simp_all

lemma sleeps_append [simp]: "sleeps (xs @ ys) = sleeps xs @ sleeps ys"
  by (induction xs rule: sleeps.induct) simp_all

lemma calls_append [simp]: "calls (xs @ ys) = calls xs + calls ys"
  by (induction xs rule: calls.induct) simp_all

lemma retries_append [simp]: "retries (xs @ ys) = retries xs + retries ys"
  by (induction xs rule: retries.induct) simp_all

lemma request_chunk_simps [simp]:
  "fs (request_chunk a f s) = fs s" "lines (request_chunk a f s) = lines s"
  "chunk (request_chunk a f s) = chunk s" "more_data (request_chunk a f s) = more_data s"
  "marker (request_chunk a f s) = marker s" "sleepcount (request_chunk a f s) = sleepcount s"
  "trace (request_chunk a f s) =
     trace s @ [Info_requesting f (marker s) (chunk s),
                Call_download (arg_instance a) f (marker s) (lines s)]"
  by (simp_all add: request_chunk_def)

lemma slept_simps [simp]:
  "fs (slept s) = fs s" "lines (slept s) = lines s" "chunk (slept s) = chunk s"
  "more_data (slept s) = more_data s" "marker (slept s) = marker s"
  "sleepcount (slept s) = Suc (sleepcount s)"
  "trace (slept s) =
     trace s @ [Warning_sleep (sleepcount s) (2 ^ sleepcount s), Sleep (2 ^ sleepcount s)]"
  by (simp_all add: slept_def)

lemma backoff_sleep_eq:
  "backoff_sleep s = (if sleepcount s \<le> 1023 then Inr (slept s) else Inl OverflowError)"
  by (simp add: backoff_sleep_def math_pow2_def slept_def)

lemma open_file_simps [simp]:
  "fs (open_file d s) = (fs s)(d \<mapsto> [])" "lines (open_file d s) = lines s"
  "chunk (open_file d s) = 0" "more_data (open_file d s)"
  "marker (open_file d s) = ''0''" "sleepcount (open_file d s) = 0"
  "trace (open_file d s) = trace s"
  by (simp_all add: open_file_def)

section \<open>Invariants of the loops\<close>

text \<open>
  A property of the state that survives a failed attempt and the handling of any
  response holds wherever the pagination loop ends or stops.
\<close>

lemma download_loop_invariant:
  assumes "I s"
    and failed: "\<And>s. I s \<Longrightarrow> more_data s \<Longrightarrow> int (sleepcount s) < arg_backoff a \<Longrightarrow>
           I (emit Call_raised (request_chunk a f s))
             \<and> (sleepcount s \<le> 1023 \<longrightarrow> I (slept (emit Call_raised (request_chunk a f s))))"
    and returned: "\<And>s r. I s \<Longrightarrow> more_data s \<Longrightarrow> int (sleepcount s) < arg_backoff a \<Longrightarrow>
           I (final (process_result a f d r (emit Call_returned (request_chunk a f s))))"
  shows "I (final (fst (download_loop a f d xs s)))"
  using \<open>I s\<close>
proof (induction xs arbitrary: s)
  case Nil
  then show ?case by simp
next
  case (Cons x xs)
  show ?case
  proof (cases "more_data s \<and> int (sleepcount s) < arg_backoff a")
    case False
    with Cons.prems show ?thesis by auto
  next
    case True
    show ?thesis
    proof (cases x)
      case Raises
      from failed [of s] Cons.prems True
      have 1: "I (emit Call_raised (request_chunk a f s))"
        and 2: "sleepcount s \<le> 1023 \<Longrightarrow> I (slept (emit Call_raised (request_chunk a f s)))"
        by simp_all
      show ?thesis
      proof (cases "sleepcount s \<le> 1023")
        case le: True
        with True Raises Cons.IH [OF 2] show ?thesis by (simp add: backoff_sleep_eq)
      next
        case False
        with True Raises 1 show ?thesis by (simp add: backoff_sleep_eq)
      qed
    next
      case (Returns r)
      from returned [of s r] Cons.prems True
      have 3: "I (final (process_result a f d r (emit Call_returned (request_chunk a f s))))"
        by simp
      show ?thesis
      proof (cases "process_result a f d r (emit Call_returned (request_chunk a f s))")
        case (Done s')
        with 3 have "I s'" by simp
        from Cons.IH [OF this] True Returns Done show ?thesis by simp
      next
        case (Crashed e s')
        with 3 True Returns show ?thesis by simp
      next
        case (Starved s')
        with 3 True Returns show ?thesis by simp
      qed
    qed
  qed
qed

text \<open>The same for the listing loop.\<close>

lemma describe_loop_invariant:
  assumes "I s"
    and failed: "\<And>s. I s \<Longrightarrow> int (sleepcount s) < arg_backoff a \<Longrightarrow>
           I (emit Call_raised (emit (Call_describe (arg_instance a)) s))
             \<and> (sleepcount s \<le> 1023 \<longrightarrow>
                  I (slept (emit Call_raised (emit (Call_describe (arg_instance a)) s))))"
    and returned: "\<And>s. I s \<Longrightarrow> int (sleepcount s) < arg_backoff a \<Longrightarrow>
           I (emit Call_returned (emit (Call_describe (arg_instance a)) s))"
  shows "I (fst (final (describe_loop a xs s)))"
  using \<open>I s\<close>
proof (induction xs arbitrary: s)
  case Nil
  then show ?case by simp
next
  case (Cons x xs)
  show ?case
  proof (cases "int (sleepcount s) < arg_backoff a")
    case False
    with Cons.prems show ?thesis by simp
  next
    case True
    show ?thesis
    proof (cases x)
      case Raises
      from failed [of s] Cons.prems True
      have 1: "I (emit Call_raised (emit (Call_describe (arg_instance a)) s))"
        and 2: "sleepcount s \<le> 1023 \<Longrightarrow>
                  I (slept (emit Call_raised (emit (Call_describe (arg_instance a)) s)))"
        by simp_all
      show ?thesis
      proof (cases "sleepcount s \<le> 1023")
        case le: True
        with True Raises Cons.IH [OF 2] show ?thesis by (simp add: backoff_sleep_eq)
      next
        case False
        with True Raises 1 show ?thesis by (simp add: backoff_sleep_eq)
      qed
    next
      case (Returns r)
      with returned [of s] Cons.prems True show ?thesis by simp
    qed
  qed
qed

text \<open>
  A property kept by every listed file, skipped or downloaded, holds at the end of the
  \<open>for\<close> loop.
\<close>

lemma for_logs_invariant:
  assumes "J s"
    and "\<And>s logfile script. J s \<Longrightarrow> J (final (fst (process_log a logfile script s)))"
  shows "J (final (fst (for_logs a logs script s)))"
  using \<open>J s\<close>
proof (induction logs arbitrary: s script)
  case Nil
  then show ?case by simp
next
  case (Cons logfile logs)
  from assms(2) [OF Cons.prems, of logfile script]
  have J: "J (final (fst (process_log a logfile script s)))" .
  show ?case
  proof (cases "fst (process_log a logfile script s)")
    case (Done s')
    with J have "J s'" by simp
    from Cons.IH [OF this] Done show ?thesis by (simp add: Let_def)
  next
    case (Crashed e s')
    with J show ?thesis by (simp add: Let_def)
  next
    case (Starved s')
    with J show ?thesis by (simp add: Let_def)
  qed
qed

section \<open>Files that exist locally\<close>

lemma skip_check_Inl:
  assumes "skip_check a logfile s = Inl s'"
  shows "fs s' = fs s" and "calls (trace s') = calls (trace s)"
    and "requested (trace s') = requested (trace s)"
    and "retries (trace s') = retries (trace s)"
    and "\<exists>evs. trace s' = trace s @ Debug_log logfile # evs \<and> sleeps evs = []"
  using assms by (auto simp add: skip_check_def Let_def split: option.splits if_splits)

lemma skip_check_Inr:
  assumes "skip_check a logfile s = Inr s'"
  shows "lines s' = arg_lines a" and "calls (trace s') = calls (trace s)"
    and "requested (trace s') = requested (trace s)"
    and "retries (trace s') = retries (trace s)"
    and "\<exists>evs. trace s' = trace s @ Debug_log logfile # evs \<and> sleeps evs = []"
  using assms by (auto simp add: skip_check_def Let_def split: option.splits if_splits)

text \<open>
  C8. A listed file whose destination exists with exactly the size of the descriptor is
  skipped: the iteration ends at once, no outcome of the chunk script is consumed and no
  call is made, and the files are as they were. This holds whether or not a name filter
  is configured (a file the filter rejects is skipped before the size is looked at).
\<close>

theorem existing_file_of_equal_size_is_skipped:
  assumes "fs s (destination_of a logfile) = Some contents"
    and "int (length contents) = Size logfile"
  shows "\<exists>s'. process_log a logfile script s = (Done s', script)
           \<and> fs s' = fs s
           \<and> calls (trace s') = calls (trace s)
           \<and> for_logs a (logfile # logs) script s = for_logs a logs script s'"
  using assms
  by (simp add: process_log_def skip_check_def Let_def split: option.splits)

theorem existing_file_of_equal_size_is_skipped_witness:
  "\<exists>s'. process_log (example_args 1000 10) example_log
            [Returns (chunk_response ''abcdefg'' False ''1'')]
            (initial_state [''out/mysql.log'' \<mapsto> ''abcdefg''])
          = (Done s', [Returns (chunk_response ''abcdefg'' False ''1'')])
       \<and> fs s' = [''out/mysql.log'' \<mapsto> ''abcdefg'']
       \<and> calls (trace s') = 0"
proof -
  have "fs (initial_state [''out/mysql.log'' \<mapsto> ''abcdefg''])
          (destination_of (example_args 1000 10) example_log) = Some ''abcdefg''"
    by (simp add: initial_state_def)
  moreover have "int (length ''abcdefg'') = Size example_log" by simp
  ultimately obtain s' where
    "process_log (example_args 1000 10) example_log
       [Returns (chunk_response ''abcdefg'' False ''1'')]
       (initial_state [''out/mysql.log'' \<mapsto> ''abcdefg''])
     = (Done s', [Returns (chunk_response ''abcdefg'' False ''1'')])"
    "fs s' = fs (initial_state [''out/mysql.log'' \<mapsto> ''abcdefg''])"
    "calls (trace s') = calls (trace (initial_state [''out/mysql.log'' \<mapsto> ''abcdefg'']))"
    using existing_file_of_equal_size_is_skipped by blast
  then show ?thesis by (auto simp add: initial_state_def)
qed

text \<open>The record of actions is only written: it never decides what the program does.\<close>

lemma untraced_simps [simp]:
  "fs (untraced s) = fs s" "lines (untraced s) = lines s" "chunk (untraced s) = chunk s"
  "more_data (untraced s) = more_data s" "marker (untraced s) = marker s"
  "sleepcount (untraced s) = sleepcount s" "trace (untraced s) = []"
  by (simp_all add: untraced_def)

lemma untraced_eq_iff:
  "untraced s = untraced t \<longleftrightarrow>
     fs s = fs t \<and> lines s = lines t \<and> chunk s = chunk t \<and> more_data s = more_data t
       \<and> marker s = marker t \<and> sleepcount s = sleepcount t"
  by (cases s, cases t) (auto simp add: untraced_def)

lemma untraced_emit [simp]: "untraced (emit e s) = untraced s"
  by (simp add: untraced_eq_iff)

lemma untraced_request_chunk [simp]: "untraced (request_chunk a f s) = untraced s"
  by (simp add: untraced_eq_iff)

lemma untraced_slept:
  "untraced s = untraced t \<Longrightarrow> untraced (slept s) = untraced (slept t)"
  by (simp add: untraced_eq_iff)

lemma untraced_open_file:
  "untraced s = untraced t \<Longrightarrow> untraced (open_file d s) = untraced (open_file d t)"
  by (simp add: untraced_eq_iff)

lemma untraced_write_file:
  "untraced s = untraced t \<Longrightarrow> untraced (write_file d x s) = untraced (write_file d x t)"
  by (simp add: untraced_eq_iff) (simp add: write_file_def)

lemma advance_untraced:
  assumes "untraced s = untraced t"
  shows "map_run untraced (advance r s) = map_run untraced (advance r t)"
  using assms by (simp add: advance_def Let_def untraced_eq_iff split: option.splits)

lemma process_result_untraced:
  assumes "untraced s = untraced t"
  shows "map_run untraced (process_result a f d r s) = map_run untraced (process_result a f d r t)"
proof -
  have 0: "untraced (s\<lparr>sleepcount := 0\<rparr>) = untraced (t\<lparr>sleepcount := 0\<rparr>)"
    using assms by (simp add: untraced_eq_iff)
  have l: "lines s = lines t" using assms by (simp add: untraced_eq_iff)
  have w: "untraced (write_file d x (emit e (s\<lparr>sleepcount := 0\<rparr>)))
         = untraced (write_file d x (emit e (t\<lparr>sleepcount := 0\<rparr>)))" for x e
    using 0 by (intro untraced_write_file) simp
  have w2: "untraced (write_file d x (emit e' (emit e (s\<lparr>sleepcount := 0\<rparr>))))
         = untraced (write_file d x (emit e' (emit e (t\<lparr>sleepcount := 0\<rparr>))))" for x e e'
    using 0 by (intro untraced_write_file) simp
  have n: "untraced (emit e' (emit e (s\<lparr>sleepcount := 0\<rparr>)))
         = untraced (emit e' (emit e (t\<lparr>sleepcount := 0\<rparr>)))" for e e'
    using 0 by simp
  have retry: "untraced ((emit e' (emit e (s\<lparr>sleepcount := 0\<rparr>)))\<lparr>lines := k\<rparr>)
         = untraced ((emit e' (emit e (t\<lparr>sleepcount := 0\<rparr>)))\<lparr>lines := k\<rparr>)"
    for e e' k
    using 0 by (simp add: untraced_eq_iff)
  show ?thesis
    unfolding process_result_def Let_def
    by (simp add: 0 l retry advance_untraced [OF w] advance_untraced [OF w2]
        advance_untraced [OF n] split: option.splits sum.splits)
qed

lemma download_loop_untraced:
  assumes "untraced s = untraced t"
  shows "map_run untraced (fst (download_loop a f d xs s))
           = map_run untraced (fst (download_loop a f d xs t))
       \<and> snd (download_loop a f d xs s) = snd (download_loop a f d xs t)"
  using assms
proof (induction xs arbitrary: s t)
  case Nil
  then show ?case by (simp add: untraced_eq_iff)
next
  case (Cons x xs)
  from Cons.prems have c: "more_data s = more_data t" "sleepcount s = sleepcount t"
    by (simp_all add: untraced_eq_iff)
  show ?case
  proof (cases "more_data s \<and> int (sleepcount s) < arg_backoff a")
    case False
    with c Cons.prems show ?thesis by auto
  next
    case True
    show ?thesis
    proof (cases x)
      case Raises
      have "untraced (slept (emit Call_raised (request_chunk a f s)))
          = untraced (slept (emit Call_raised (request_chunk a f t)))"
        using Cons.prems by (intro untraced_slept) simp
      from Cons.IH [OF this] True c Raises Cons.prems show ?thesis
        by (simp add: backoff_sleep_eq)
    next
      case (Returns r)
      have "untraced (emit Call_returned (request_chunk a f s))
          = untraced (emit Call_returned (request_chunk a f t))"
        using Cons.prems by simp
      then have pr: "map_run untraced (process_result a f d r (emit Call_returned (request_chunk a f s)))
                = map_run untraced (process_result a f d r (emit Call_returned (request_chunk a f t)))"
        by (rule process_result_untraced)
      show ?thesis
      proof (cases "process_result a f d r (emit Call_returned (request_chunk a f s))")
        case (Done s')
        with pr obtain t' where
          t': "process_result a f d r (emit Call_returned (request_chunk a f t)) = Done t'"
          and "untraced s' = untraced t'"
          by (cases "process_result a f d r (emit Call_returned (request_chunk a f t))") simp_all
        from Cons.IH [OF this(2)] True c Returns Done t' show ?thesis by simp
      next
        case (Crashed e s')
        with pr obtain t' where
          "process_result a f d r (emit Call_returned (request_chunk a f t)) = Crashed e t'"
          and "untraced s' = untraced t'"
          by (cases "process_result a f d r (emit Call_returned (request_chunk a f t))") simp_all
        with True c Returns Crashed show ?thesis by simp
      next
        case (Starved s')
        with pr obtain t' where
          "process_result a f d r (emit Call_returned (request_chunk a f t)) = Starved t'"
          and "untraced s' = untraced t'"
          by (cases "process_result a f d r (emit Call_returned (request_chunk a f t))") simp_all
        with True c Returns Starved show ?thesis by simp
      qed
    qed
  qed
qed

lemma download_file_untraced:
  assumes "untraced s = untraced t"
  shows "map_run untraced (fst (download_file a f d xs s))
           = map_run untraced (fst (download_file a f d xs t))
       \<and> snd (download_file a f d xs s) = snd (download_file a f d xs t)"
proof -
  from assms have "untraced (open_file d s) = untraced (open_file d t)"
    by (rule untraced_open_file)
  from download_loop_untraced [OF this, of a f d xs]
  have m: "map_run untraced (fst (download_loop a f d xs (open_file d s)))
           = map_run untraced (fst (download_loop a f d xs (open_file d t)))"
    and sn: "snd (download_loop a f d xs (open_file d s)) = snd (download_loop a f d xs (open_file d t))"
    by simp_all
  show ?thesis
  proof (cases "fst (download_loop a f d xs (open_file d s))")
    case (Done s')
    with m obtain t' where t': "fst (download_loop a f d xs (open_file d t)) = Done t'"
      and u: "untraced s' = untraced t'"
      by (cases "fst (download_loop a f d xs (open_file d t))") simp_all
    from u have "sleepcount s' = sleepcount t'" by (simp add: untraced_eq_iff)
    with Done t' u sn m show ?thesis by (simp add: download_file_def Let_def)
  next
    case (Crashed e s')
    with m obtain t' where "fst (download_loop a f d xs (open_file d t)) = Crashed e t'"
      by (cases "fst (download_loop a f d xs (open_file d t))") simp_all
    with Crashed sn m show ?thesis by (simp add: download_file_def Let_def)
  next
    case (Starved s')
    with m obtain t' where "fst (download_loop a f d xs (open_file d t)) = Starved t'"
      by (cases "fst (download_loop a f d xs (open_file d t))") simp_all
    with Starved sn m show ?thesis by (simp add: download_file_def Let_def)
  qed
qed

text \<open>
  C7. A listed file that reaches the comparison of sizes (it passes the name filter, if
  one is configured) and whose destination exists with another size: the local file is
  removed; with no response yet, the download stands before its first request, at marker
  \<open>"0"\<close>, chunk 0, the configured line count, the destination created empty; and for every
  script of responses the files and variables end up exactly as they do when the
  destination did not exist at all: nothing of the old file is resumed.
\<close>

theorem existing_file_of_other_size_is_downloaded_afresh:
  assumes "fs s (destination_of a logfile) = Some contents"
    and "int (length contents) \<noteq> Size logfile"
    and "case arg_logfile_match a of None \<Rightarrow> True | Some search \<Rightarrow> search (LogFileName logfile)"
  shows "(\<exists>s'. skip_check a logfile s = Inr s' \<and> fs s' = (fs s)(destination_of a logfile := None))
       \<and> (0 < arg_backoff a \<longrightarrow>
            (\<exists>s'. process_log a logfile [] s = (Starved s', [])
                \<and> fs s' = (fs s)(destination_of a logfile \<mapsto> [])
                \<and> marker s' = ''0'' \<and> chunk s' = 0 \<and> lines s' = arg_lines a))
       \<and> map_run untraced (fst (process_log a logfile script s))
            = map_run untraced
                (fst (process_log a logfile script (s\<lparr>fs := (fs s)(destination_of a logfile := None)\<rparr>)))
       \<and> snd (process_log a logfile script s)
            = snd (process_log a logfile script (s\<lparr>fs := (fs s)(destination_of a logfile := None)\<rparr>))"
proof -
  let ?d = "destination_of a logfile"
  let ?f = "LogFileName logfile"
  let ?s0 = "(emit (Debug_log logfile) s)\<lparr>lines := arg_lines a\<rparr>"
  let ?s1 = "(emit (Info_sizes (length contents) (Size logfile))
               (emit (Info_size_mismatch ?f) ?s0))\<lparr>fs := (fs s)(?d := None)\<rparr>"
  let ?t = "s\<lparr>fs := (fs s)(?d := None)\<rparr>"
  let ?t1 = "(emit (Debug_log logfile) ?t)\<lparr>lines := arg_lines a\<rparr>"
  from assms have sk: "skip_check a logfile s = Inr ?s1"
    by (auto simp add: skip_check_def Let_def split: option.splits)
  have skt: "skip_check a logfile ?t = Inr ?t1"
    using assms(3) by (auto simp add: skip_check_def Let_def split: option.splits)
  have u: "untraced ?s1 = untraced ?t1" by (simp add: untraced_eq_iff)
  have 1: "\<exists>s'. skip_check a logfile s = Inr s' \<and> fs s' = (fs s)(?d := None)"
    using sk by simp
  have 2: "0 < arg_backoff a \<longrightarrow>
            (\<exists>s'. process_log a logfile [] s = (Starved s', [])
                \<and> fs s' = (fs s)(?d \<mapsto> [])
                \<and> marker s' = ''0'' \<and> chunk s' = 0 \<and> lines s' = arg_lines a)"
    by (simp add: process_log_def sk download_file_def Let_def)
  from download_file_untraced [OF u, of a ?f ?d script]
  have 3: "map_run untraced (fst (process_log a logfile script s))
            = map_run untraced (fst (process_log a logfile script ?t))"
    and 4: "snd (process_log a logfile script s) = snd (process_log a logfile script ?t)"
    by (simp_all add: process_log_def sk skt)
  from 1 2 3 4 show ?thesis by blast
qed

theorem existing_file_of_other_size_is_downloaded_afresh_witness:
  "(\<exists>s'. skip_check (example_args 1000 10) example_log (initial_state [''out/mysql.log'' \<mapsto> ''old''])
            = Inr s' \<and> fs s' = Map.empty)
   \<and> (\<exists>s'. process_log (example_args 1000 10) example_log []
              (initial_state [''out/mysql.log'' \<mapsto> ''old'']) = (Starved s', [])
          \<and> fs s' = [''out/mysql.log'' \<mapsto> []]
          \<and> marker s' = ''0'' \<and> chunk s' = 0 \<and> lines s' = 1000)
   \<and> map_run untraced
        (fst (process_log (example_args 1000 10) example_log
                [Returns (chunk_response ''abcdefg'' False ''1'')]
                (initial_state [''out/mysql.log'' \<mapsto> ''old''])))
       = map_run untraced
           (fst (process_log (example_args 1000 10) example_log
                   [Returns (chunk_response ''abcdefg'' False ''1'')]
                   (initial_state Map.empty)))"
proof -
  have "fs (initial_state [''out/mysql.log'' \<mapsto> ''old''])
          (destination_of (example_args 1000 10) example_log) = Some ''old''"
    by (simp add: initial_state_def)
  moreover have "int (length ''old'') \<noteq> Size example_log" by simp
  moreover have "case arg_logfile_match (example_args 1000 10) of None \<Rightarrow> True
                 | Some search \<Rightarrow> search (LogFileName example_log)"
    by simp
  ultimately show ?thesis
    using existing_file_of_other_size_is_downloaded_afresh
      [of "initial_state [''out/mysql.log'' \<mapsto> ''old'']" "example_args 1000 10" example_log
          "''old''" "[Returns (chunk_response ''abcdefg'' False ''1'')]"]
    by (simp add: initial_state_def)
qed

section \<open>Exhausted retries of a chunk\<close>

lemma process_result_keeps_file:
  assumes "d \<in> dom (fs s)"
  shows "d \<in> dom (fs (final (process_result a f d r s)))"
  using assms
  by (auto simp add: process_result_def advance_def Let_def write_file_def
      split: option.splits sum.splits)

lemma download_loop_keeps_file:
  assumes "d \<in> dom (fs s)"
  shows "d \<in> dom (fs (final (fst (download_loop a f d xs s))))"
  using assms
  by (rule download_loop_invariant [where I = "\<lambda>s. d \<in> dom (fs s)"])
    (simp_all add: process_result_keeps_file)

text \<open>
  C6. A file that is downloaded (not skipped) and whose loop ends with the failure
  counter at the configured maximum: the error naming the file is logged, the destination
  file is still there with what was written to it, the iteration of the file ends as
  \<open>Done\<close> and the \<open>for\<close> loop goes on with the next listed file and the rest of the script.
\<close>

theorem exhausted_file_is_kept_and_run_continues:
  assumes "skip_check a logfile s = Inr s1"
    and "download_loop a (LogFileName logfile) (destination_of a logfile) script
           (open_file (destination_of a logfile) s1) = (Done s2, rest)"
    and "int (sleepcount s2) = arg_backoff a"
  shows "process_log a logfile script s
           = (Done (emit (Error_too_many (LogFileName logfile)) s2), rest)
       \<and> destination_of a logfile \<in> dom (fs (emit (Error_too_many (LogFileName logfile)) s2))
       \<and> for_logs a (logfile # logs) script s
           = for_logs a logs rest (emit (Error_too_many (LogFileName logfile)) s2)"
proof -
  let ?d = "destination_of a logfile"
  have p: "process_log a logfile script s
           = (Done (emit (Error_too_many (LogFileName logfile)) s2), rest)"
    using assms by (simp add: process_log_def download_file_def Let_def)
  have "?d \<in> dom (fs (open_file ?d s1))" by simp
  then have "?d \<in> dom (fs (final (fst (download_loop a (LogFileName logfile) ?d script
                                          (open_file ?d s1)))))"
    by (rule download_loop_keeps_file)
  then have k: "?d \<in> dom (fs (emit (Error_too_many (LogFileName logfile)) s2))"
    using assms(2) by simp
  from p k show ?thesis by (simp add: Let_def)
qed

theorem exhausted_file_is_kept_and_run_continues_witness:
  "\<exists>s2. process_log (example_args 1000 2) example_log exhausting_script (initial_state Map.empty)
            = (Done (emit (Error_too_many ''error/mysql.log'') s2),
               [Returns (chunk_response ''zz'' False ''2'')])
       \<and> sleepcount s2 = 2
       \<and> fs s2 ''out/mysql.log'' = Some ''abc''
       \<and> for_logs (example_args 1000 2) [example_log, other_log] exhausting_script
            (initial_state Map.empty)
           = for_logs (example_args 1000 2) [other_log]
               [Returns (chunk_response ''zz'' False ''2'')]
               (emit (Error_too_many ''error/mysql.log'') s2)"
proof -
  let ?a = "example_args 1000 2"
  let ?s = "initial_state Map.empty"
  let ?s1 = "(emit (Debug_log example_log) ?s)\<lparr>lines := 1000\<rparr>"
  define r where
    "r = download_loop ?a ''error/mysql.log'' ''out/mysql.log'' exhausting_script
           (open_file ''out/mysql.log'' ?s1)"
  have sk: "skip_check ?a example_log ?s = Inr ?s1"
    by (simp add: skip_check_def Let_def initial_state_def)
  have ev: "fst r = Done (final (fst r))" "snd r = [Returns (chunk_response ''zz'' False ''2'')]"
    "sleepcount (final (fst r)) = 2" "fs (final (fst r)) ''out/mysql.log'' = Some ''abc''"
    by (simp_all add: r_def exhausting_script_def chunk_response_def process_result_def
        advance_def backoff_sleep_eq write_file_def Let_def initial_state_def)
  have dl: "download_loop ?a (LogFileName example_log) (destination_of ?a example_log)
              exhausting_script (open_file (destination_of ?a example_log) ?s1)
            = (Done (final (fst r)), [Returns (chunk_response ''zz'' False ''2'')])"
    using ev(1,2) by (simp add: r_def prod_eq_iff)
  have "int (sleepcount (final (fst r))) = arg_backoff ?a" using ev(3) by simp
  from exhausted_file_is_kept_and_run_continues [OF sk dl this, of "[other_log]"] ev(3,4)
  show ?thesis by (intro exI [of _ "final (fst r)"]) simp
qed

section \<open>Truncated chunks\<close>

text \<open>What the handling of one response adds to the record of actions.\<close>

lemma advance_trace:
  "\<exists>evs. trace (final (advance r s)) = trace s @ evs \<and> requested evs = [] \<and> calls evs = 0
         \<and> sleeps evs = [] \<and> retries evs = 0"
  by (simp add: advance_def Let_def split: option.splits)

lemma advance_counts [simp]:
  "lines (final (advance r s)) = lines s"
  "requested (trace (final (advance r s))) = requested (trace s)"
  "calls (trace (final (advance r s))) = calls (trace s)"
  "sleeps (trace (final (advance r s))) = sleeps (trace s)"
  "retries (trace (final (advance r s))) = retries (trace s)"
  by (simp_all add: advance_def Let_def split: option.splits)

lemma process_result_trace:
  "\<exists>evs. trace (final (process_result a f d r s)) = trace s @ evs"
proof -
  have *: "\<exists>evs. trace (final (advance r t)) = trace s @ evs"
    if "trace t = trace s @ pre" for t pre
  proof -
    from advance_trace [of r t] obtain evs where
      "trace (final (advance r t)) = trace t @ evs" by blast
    with that show ?thesis by (intro exI [of _ "pre @ evs"]) simp
  qed
  show ?thesis
    unfolding process_result_def Let_def
    by (auto split: option.splits sum.splits intro!: *)
qed

lemma process_result_counts [simp]:
  "requested (trace (final (process_result a f d r s))) = requested (trace s)"
  "calls (trace (final (process_result a f d r s))) = calls (trace s)"
  "sleeps (trace (final (process_result a f d r s))) = sleeps (trace s)"
  by (simp_all add: process_result_def Let_def split: option.splits sum.splits)

text \<open>The two branches of lines 144-151 for a truncated chunk that carries all its keys.\<close>

lemma process_result_truncated:
  assumes "0 \<le> arg_lines a" and "arg_lines a < 2 ^ 52"
    and "LogFileData r = Some (Some data)" and "endswith data truncated_sentinel"
    and "AdditionalDataPending r = Some p" and "Marker r = Some m"
  shows "process_result a f d r s =
           (if arg_lines a < 10 * lines s
            then Done (emit (Info_retrying (lines s - 10))
                   ((emit Info_truncated (emit (Info_pending p m) (s\<lparr>sleepcount := 0\<rparr>)))
                      \<lparr>lines := lines s - 10\<rparr>))
            else Done (emit (Debug_result (r\<lparr>LogFileData := None\<rparr>))
                   ((write_file d data
                       (emit Info_truncated (emit (Info_pending p m) (s\<lparr>sleepcount := 0\<rparr>))))
                      \<lparr>more_data := p, marker := m, chunk := Suc (chunk s)\<rparr>)))"
proof -
  from mul_tenth_cmp [OF assms(1,2)] obtain t where
    t: "mul_tenth (arg_lines a) = Inr t" "\<And>l. t < of_int l \<longleftrightarrow> arg_lines a < 10 * l"
    by blast
  show ?thesis
    using assms(3-6) by (simp add: process_result_def advance_def Let_def t)
qed

text \<open>
  Line 146 for a configured line count in the range where the floating-point threshold
  is exact: the handling of a response either leaves the line count alone and is no
  retry, or it is a truncation retry, which takes 10 off a line count that was above a
  tenth of the configured one.
\<close>

lemma process_result_lines:
  assumes "0 \<le> arg_lines a" and "arg_lines a < 2 ^ 52"
  shows "lines (final (process_result a f d r s)) = lines s
           \<and> retries (trace (final (process_result a f d r s))) = retries (trace s)
       \<or> lines (final (process_result a f d r s)) = lines s - 10
           \<and> arg_lines a < 10 * lines s
           \<and> retries (trace (final (process_result a f d r s))) = Suc (retries (trace s))"
proof -
  from mul_tenth_cmp [OF assms] obtain t where
    t: "mul_tenth (arg_lines a) = Inr t" "\<And>l. t < of_int l \<longleftrightarrow> arg_lines a < 10 * l"
    by blast
  show ?thesis
    unfolding process_result_def Let_def
    by (simp add: t split: option.splits)
qed

lemma download_loop_trace:
  "\<exists>evs. trace (final (fst (download_loop a f d xs s))) = trace s @ evs"
proof -
  have "(\<lambda>u. \<exists>evs. trace u = trace s @ evs) (final (fst (download_loop a f d xs s)))"
  proof (rule download_loop_invariant [where I = "\<lambda>u. \<exists>evs. trace u = trace s @ evs"])
    show "\<exists>evs. trace s = trace s @ evs" by simp
  next
    fix u :: state assume "\<exists>evs. trace u = trace s @ evs"
    then show "(\<exists>evs. trace (emit Call_raised (request_chunk a f u)) = trace s @ evs) \<and>
         (sleepcount u \<le> 1023 \<longrightarrow>
          (\<exists>evs. trace (slept (emit Call_raised (request_chunk a f u))) = trace s @ evs))"
      by auto
  next
    fix u :: state and r assume "\<exists>evs. trace u = trace s @ evs"
    then obtain evs where u: "trace u = trace s @ evs" ..
    from process_result_trace [of a f d r "emit Call_returned (request_chunk a f u)"]
    obtain evs' where
      "trace (final (process_result a f d r (emit Call_returned (request_chunk a f u))))
         = trace (emit Call_returned (request_chunk a f u)) @ evs'" by blast
    with u show "\<exists>evs. trace (final (process_result a f d r
                    (emit Call_returned (request_chunk a f u)))) = trace s @ evs"
      by simp
  qed
  then show ?thesis .
qed

text \<open>Where the loop goes round once more, the next thing it does is ask for a chunk.\<close>

lemma download_loop_first_request:
  assumes "more_data s" and "int (sleepcount s) < arg_backoff a"
  shows "\<exists>evs. trace (final (fst (download_loop a f d (x # xs) s)))
                 = trace (request_chunk a f s) @ evs"
proof (cases x)
  case Raises
  show ?thesis
  proof (cases "sleepcount s \<le> 1023")
    case True
    from download_loop_trace [of a f d xs "slept (emit Call_raised (request_chunk a f s))"]
    obtain evs where
      "trace (final (fst (download_loop a f d xs (slept (emit Call_raised (request_chunk a f s))))))
         = trace (slept (emit Call_raised (request_chunk a f s))) @ evs" ..
    with assms Raises True show ?thesis by (simp add: backoff_sleep_eq)
  next
    case False
    with assms Raises show ?thesis by (simp add: backoff_sleep_eq)
  qed
next
  case (Returns r)
  let ?p = "process_result a f d r (emit Call_returned (request_chunk a f s))"
  from process_result_trace [of a f d r "emit Call_returned (request_chunk a f s)"]
  obtain evs where p: "trace (final ?p) = trace (request_chunk a f s) @ Call_returned # evs"
    by auto
  show ?thesis
  proof (cases ?p)
    case (Done s')
    from download_loop_trace [of a f d xs s'] obtain evs' where
      "trace (final (fst (download_loop a f d xs s'))) = trace s' @ evs'" ..
    with assms Returns Done p show ?thesis by simp
  next
    case (Crashed e s')
    with assms Returns p show ?thesis by simp
  next
    case (Starved s')
    with assms Returns p show ?thesis by simp
  qed
qed

lemma mul_tenth_1000: "mul_tenth 1000 = Inr 100"
  by (simp add: mul_tenth_def float_of_int_def round53_def bit_length.simps nearest_even_def
      tenth_mantissa_def Let_def)

text \<open>
  C5. Configured with 1000 lines and still asking for 1000 (no truncation before in this
  file), the loop receives a chunk that carries the flag and the marker and whose data
  ends with the sentinel. The data is not written, the marker and the chunk counter stay,
  the line count becomes 990, and the loop stands before its next request; if the script
  goes on, that request is made for the same marker with 990 lines.
\<close>

theorem truncated_chunk_is_retried_with_990_lines:
  assumes "arg_lines a = 1000" and "lines s = 1000"
    and "LogFileData r = Some (Some data)" and "endswith data truncated_sentinel"
    and "AdditionalDataPending r = Some p" and "Marker r = Some m"
    and "more_data s" and "int (sleepcount s) < arg_backoff a"
  shows "\<exists>s'. download_loop a f d [Returns r] s = (Starved s', [])
           \<and> lines s' = 990 \<and> marker s' = marker s \<and> chunk s' = chunk s \<and> fs s' = fs s
           \<and> (\<forall>x xs. \<exists>evs. trace (final (fst (download_loop a f d (Returns r # x # xs) s)))
                 = trace s' @ [Info_requesting f (marker s) (chunk s),
                               Call_download (arg_instance a) f (marker s) 990] @ evs)"
proof -
  let ?s0 = "emit Call_returned (request_chunk a f s)"
  let ?s' = "emit (Info_retrying 990)
               ((emit Info_truncated (emit (Info_pending p m) (?s0\<lparr>sleepcount := 0\<rparr>)))
                  \<lparr>lines := 990\<rparr>)"
  have pr: "process_result a f d r ?s0 = Done ?s'"
    using assms(1-6) by (simp add: process_result_def Let_def mul_tenth_1000)
  have run: "more_data ?s'" "int (sleepcount ?s') < arg_backoff a"
    using assms(7,8) by simp_all
  have 1: "download_loop a f d [Returns r] s = (Starved ?s', [])"
    using assms(7,8) pr run by simp
  have 2: "\<exists>evs. trace (final (fst (download_loop a f d (Returns r # x # xs) s)))
              = trace ?s' @ [Info_requesting f (marker s) (chunk s),
                             Call_download (arg_instance a) f (marker s) 990] @ evs" for x xs
  proof -
    from download_loop_first_request [OF run, of f d x xs] obtain evs where
      "trace (final (fst (download_loop a f d (x # xs) ?s'))) = trace (request_chunk a f ?s') @ evs"
      ..
    moreover have "download_loop a f d (Returns r # x # xs) s = download_loop a f d (x # xs) ?s'"
      using assms(7,8) pr by simp
    ultimately show ?thesis by simp
  qed
  from 1 2 show ?thesis by (intro exI [of _ ?s']) simp
qed

theorem truncated_chunk_is_retried_with_990_lines_witness:
  "\<exists>s'. download_loop (example_args 1000 10) ''error/mysql.log'' ''out/mysql.log''
            [Returns truncated_response]
            (open_file ''out/mysql.log'' ((initial_state Map.empty)\<lparr>lines := 1000\<rparr>))
          = (Starved s', [])
       \<and> lines s' = 990 \<and> marker s' = ''0'' \<and> chunk s' = 0
       \<and> fs s' = [''out/mysql.log'' \<mapsto> []]
       \<and> (\<forall>x xs. \<exists>evs.
             trace (final (fst (download_loop (example_args 1000 10) ''error/mysql.log''
                                  ''out/mysql.log'' (Returns truncated_response # x # xs)
                                  (open_file ''out/mysql.log''
                                     ((initial_state Map.empty)\<lparr>lines := 1000\<rparr>)))))
               = trace s' @ [Info_requesting ''error/mysql.log'' ''0'' 0,
                             Call_download ''db'' ''error/mysql.log'' ''0'' 990] @ evs)"
proof -
  let ?a = "example_args 1000 10"
  let ?s = "open_file ''out/mysql.log'' ((initial_state Map.empty)\<lparr>lines := 1000\<rparr>)"
  have "arg_lines ?a = 1000" "lines ?s = 1000"
    "LogFileData truncated_response = Some (Some (''ab'' @ truncated_sentinel))"
    "endswith (''ab'' @ truncated_sentinel) truncated_sentinel"
    "AdditionalDataPending truncated_response = Some True"
    "Marker truncated_response = Some ''7''"
    "more_data ?s" "int (sleepcount ?s) < arg_backoff ?a"
    by (simp_all add: truncated_response_def chunk_response_def endswith_def
        truncated_sentinel_def)
  from truncated_chunk_is_retried_with_990_lines
         [OF this, of "''error/mysql.log''" "''out/mysql.log''"]
  show ?thesis by (simp add: initial_state_def del: download_loop.simps)
qed

section \<open>The floor of the line count\<close>

lemma near_floor_step: "near_floor N l \<Longrightarrow> N < 10 * l \<Longrightarrow> near_floor N (l - 10)"
  unfolding near_floor_def by (auto elim!: dvdE)

lemma near_floor_initial: "0 \<le> N \<Longrightarrow> near_floor N N"
  unfolding near_floor_def by (auto elim!: dvdE)

lemma download_loop_near_floor:
  assumes "0 \<le> arg_lines a" and "arg_lines a < 2 ^ 52"
    and "near_floor (arg_lines a) (lines s)"
    and "\<forall>n\<in>set (requested (trace s)). near_floor (arg_lines a) n"
  shows "\<forall>n\<in>set (requested (trace (final (fst (download_loop a f d xs s))))).
           near_floor (arg_lines a) n"
proof -
  let ?I = "\<lambda>u. near_floor (arg_lines a) (lines u)
                \<and> (\<forall>n\<in>set (requested (trace u)). near_floor (arg_lines a) n)"
  have "?I (final (fst (download_loop a f d xs s)))"
  proof (rule download_loop_invariant [where I = ?I])
    show "?I s" using assms(3,4) by simp
  next
    fix u :: state assume "?I u"
    then show "?I (emit Call_raised (request_chunk a f u))
         \<and> (sleepcount u \<le> 1023 \<longrightarrow> ?I (slept (emit Call_raised (request_chunk a f u))))"
      by auto
  next
    fix u :: state and r assume u: "?I u"
    let ?v = "emit Call_returned (request_chunk a f u)"
    from u have v: "?I ?v" by auto
    from process_result_lines [OF assms(1,2), of f d r ?v]
    have "near_floor (arg_lines a) (lines (final (process_result a f d r ?v)))"
      using v by (auto intro: near_floor_step)
    moreover have "requested (trace (final (process_result a f d r ?v))) = requested (trace ?v)"
      by simp
    ultimately show "?I (final (process_result a f d r ?v))" using v by simp
  qed
  then show ?thesis by simp
qed

lemma process_log_near_floor:
  assumes "0 \<le> arg_lines a" and "arg_lines a < 2 ^ 52"
    and "\<forall>n\<in>set (requested (trace s)). near_floor (arg_lines a) n"
  shows "\<forall>n\<in>set (requested (trace (final (fst (process_log a logfile script s))))).
           near_floor (arg_lines a) n"
proof (cases "skip_check a logfile s")
  case (Inl s')
  from skip_check_Inl(3) [OF Inl] assms(3) Inl show ?thesis by (simp add: process_log_def)
next
  case (Inr s')
  let ?d = "destination_of a logfile"
  let ?r = "download_loop a (LogFileName logfile) ?d script (open_file ?d s')"
  have "\<forall>n\<in>set (requested (trace (final (fst ?r)))). near_floor (arg_lines a) n"
    using assms skip_check_Inr(1,3) [OF Inr]
    by (intro download_loop_near_floor) (simp_all add: near_floor_initial)
  then show ?thesis
    by (cases "fst ?r") (simp_all add: process_log_def Inr download_file_def Let_def)
qed

lemma main_near_floor:
  assumes "0 \<le> arg_lines a" and "arg_lines a < 2 ^ 52"
  shows "\<forall>n\<in>set (requested (trace (final (main a ls cs files)))). near_floor (arg_lines a) n"
proof -
  let ?J = "\<lambda>u. \<forall>n\<in>set (requested (trace u)). near_floor (arg_lines a) n"
  have d: "?J (fst (final (describe_loop a ls (initial_state files))))"
    by (rule describe_loop_invariant [where I = ?J]) (simp_all add: initial_state_def)
  have f: "?J (final (fst (for_logs a logs cs u)))" if "?J u" for logs u
    using that
    by (rule for_logs_invariant [where J = ?J]) (rule process_log_near_floor [OF assms])
  show ?thesis
  proof (cases "describe_loop a ls (initial_state files)")
    case (Done x)
    with d have "?J (fst x)" by simp
    with Done f [of "fst x"] show ?thesis
      by (cases x) (simp add: main_def split: option.splits)
  next
    case (Crashed e x)
    with d show ?thesis by (cases x) (simp add: main_def)
  next
    case (Starved x)
    with d show ?thesis by (cases x) (simp add: main_def)
  qed
qed

lemma replicate_6: "replicate 6 x = [x, x, x, x, x, x]"
  by (simp add: numeral_eq_Suc)

lemma mul_tenth_50: "mul_tenth 50 = Inr 5"
  by (simp add: mul_tenth_def float_of_int_def round53_def bit_length.simps nearest_even_def
      tenth_mantissa_def Let_def)

text \<open>
  C2. The claim: the requested line count never drops below 10 percent of the configured
  count. Line 146 tests the count before 10 is taken off, so the count that passes the
  test just above the floor lands below it. Configured with 50 lines and answered by
  truncated chunks, the program asks for 50, 40, 30, 20, 10 and then 0 lines, and 0 is
  below 5.
\<close>

theorem requested_lines_drop_below_a_tenth:
  "requested (trace (final (main (example_args 50 10) [Returns [example_log]]
                              (replicate 6 (Returns truncated_response)) Map.empty)))
     = [50, 40, 30, 20, 10, 0]
   \<and> (of_int 0 :: rat) < of_int (arg_lines (example_args 50 10)) / 10"
  by (simp add: main_def initial_state_def process_log_def skip_check_def download_file_def
      open_file_def process_result_def advance_def truncated_response_def chunk_response_def
      mul_tenth_50 endswith_def truncated_sentinel_def replicate_6 Let_def)


text \<open>
  C2, as the code has it. For a configured count from 0 up to \<open>2 ^ 52\<close> (the range in which
  the double product \<open>args.lines * 0.1\<close> decides the test of line 146 exactly), every line
  count the program ever asks for is above a tenth of the configured count less 10, and
  it is at least a tenth of it when the configured count is a multiple of 100; the
  handling of a response takes 10 off the count only while the count is above a tenth of
  the configured one.
\<close>

theorem requested_lines_stay_near_floor:
  assumes "0 \<le> arg_lines a" and "arg_lines a < 2 ^ 52"
    and "n \<in> set (requested (trace (final (main a listing_script chunk_script files))))"
  shows "of_int (arg_lines a) / 10 - 10 < (of_int n :: rat)
       \<and> (100 dvd arg_lines a \<longrightarrow> of_int (arg_lines a) / 10 \<le> (of_int n :: rat))
       \<and> (lines (final (process_result a f d r s)) = lines s
          \<or> lines (final (process_result a f d r s)) = lines s - 10
              \<and> of_int (arg_lines a) / 10 < (of_int (lines s) :: rat))"
proof -
  from main_near_floor [OF assms(1,2)] assms(3)
  have "near_floor (arg_lines a) n" by blast
  then have 1: "arg_lines a - 100 < 10 * n" and 2: "100 dvd arg_lines a \<Longrightarrow> arg_lines a \<le> 10 * n"
    by (simp_all add: near_floor_def)
  have r1: "of_int (arg_lines a) / 10 - 10 < (of_int n :: rat)"
  proof -
    from 1 have "(of_int (arg_lines a - 100) :: rat) < of_int (10 * n)"
      by (simp only: of_int_less_iff)
    then show ?thesis by simp
  qed
  have r2: "of_int (arg_lines a) / 10 \<le> (of_int n :: rat)" if "100 dvd arg_lines a"
  proof -
    from 2 [OF that] have "(of_int (arg_lines a) :: rat) \<le> of_int (10 * n)"
      by (simp only: of_int_le_iff)
    then show ?thesis by simp
  qed
  have r3: "lines (final (process_result a f d r s)) = lines s
          \<or> lines (final (process_result a f d r s)) = lines s - 10
              \<and> of_int (arg_lines a) / 10 < (of_int (lines s) :: rat)"
  proof -
    have "of_int (arg_lines a) / 10 < (of_int (lines s) :: rat)" if "arg_lines a < 10 * lines s"
    proof -
      from that have "(of_int (arg_lines a) :: rat) < of_int (10 * lines s)"
        by (simp only: of_int_less_iff)
      then show ?thesis by simp
    qed
    with process_result_lines [OF assms(1,2), of f d r s] show ?thesis by blast
  qed
  from r1 r2 r3 show ?thesis by blast
qed

theorem requested_lines_stay_near_floor_witness:
  "(0::int) \<le> 1000 \<and> (1000::int) < 2 ^ 52
   \<and> 990 \<in> set (requested (trace (final (main (example_args 1000 10) [Returns [example_log]]
                 [Returns truncated_response, Returns truncated_response] Map.empty))))
   \<and> of_int 1000 / 10 - 10 < (of_int 990 :: rat)
   \<and> of_int 1000 / 10 \<le> (of_int 990 :: rat)"
proof -
  have m: "990 \<in> set (requested (trace (final (main (example_args 1000 10)
              [Returns [example_log]]
              [Returns truncated_response, Returns truncated_response] Map.empty))))"
    by (simp add: main_def initial_state_def process_log_def skip_check_def download_file_def
        open_file_def process_result_def advance_def truncated_response_def chunk_response_def
        mul_tenth_1000 endswith_def truncated_sentinel_def Let_def)
  have "0 \<le> arg_lines (example_args 1000 10)" "arg_lines (example_args 1000 10) < 2 ^ 52"
    by simp_all
  from requested_lines_stay_near_floor [OF this m] m show ?thesis by simp
qed

section \<open>The number of truncation retries\<close>

lemma retries_left_step: "N < 10 * l \<Longrightarrow> Suc (retries_left N (l - 10)) \<le> retries_left N l"
  unfolding retries_left_def by (simp add: nat_le_iff Suc_le_eq) linarith

lemma retries_left_initial:
  assumes "0 \<le> N"
  shows "int (retries_left N N) \<le> \<lceil>9 * of_int N / 100 :: rat\<rceil>"
proof (cases "N < 10 * N")
  case True
  have "100 * ((9 * N + 99) div 100) \<le> 9 * N + 99"
    by (simp add: mult.commute [of 100])
  then have "(of_int (100 * ((9 * N + 99) div 100)) :: rat) \<le> of_int (9 * N + 99)"
    by (simp only: of_int_le_iff)
  then have "(of_int ((9 * N + 99) div 100) :: rat) - 1 < 9 * of_int N / 100" by simp
  then have "(9 * N + 99) div 100 \<le> \<lceil>9 * of_int N / 100 :: rat\<rceil>"
    by (simp only: le_ceiling_iff)
  moreover have "10 * N - N + 99 = 9 * N + 99" by simp
  ultimately show ?thesis using True assms by (simp add: retries_left_def)
next
  case False
  with assms have "N = 0" by simp
  then show ?thesis by (simp add: retries_left_def)
qed

lemma retries_at_le: "retries_at m cur evs \<le> retries evs"
  by (induction m cur evs rule: retries_at.induct) auto

lemma download_loop_retries:
  assumes "0 \<le> arg_lines a" and "arg_lines a < 2 ^ 52"
  shows "retries (trace (final (fst (download_loop a f d xs s))))
           + retries_left (arg_lines a) (lines (final (fst (download_loop a f d xs s))))
         \<le> retries (trace s) + retries_left (arg_lines a) (lines s)"
proof -
  let ?K = "retries (trace s) + retries_left (arg_lines a) (lines s)"
  let ?I = "\<lambda>u. retries (trace u) + retries_left (arg_lines a) (lines u) \<le> ?K"
  show ?thesis
  proof (rule download_loop_invariant [where I = ?I])
    show "?I s" by simp
  next
    fix u :: state assume "?I u"
    then show "?I (emit Call_raised (request_chunk a f u))
         \<and> (sleepcount u \<le> 1023 \<longrightarrow> ?I (slept (emit Call_raised (request_chunk a f u))))"
      by simp
  next
    fix u :: state and r assume u: "?I u"
    let ?v = "emit Call_returned (request_chunk a f u)"
    from u have v: "?I ?v" by simp
    from process_result_lines [OF assms, of f d r ?v]
    show "?I (final (process_result a f d r ?v))"
    proof (elim disjE conjE)
      assume "lines (final (process_result a f d r ?v)) = lines ?v"
        "retries (trace (final (process_result a f d r ?v))) = retries (trace ?v)"
      with v show ?thesis by simp
    next
      assume "lines (final (process_result a f d r ?v)) = lines ?v - 10"
        "arg_lines a < 10 * lines ?v"
        "retries (trace (final (process_result a f d r ?v))) = Suc (retries (trace ?v))"
      with v retries_left_step [of "arg_lines a" "lines ?v"] show ?thesis by simp
    qed
  qed
qed

text \<open>The events of one listed file, and the truncation retries among them.\<close>

lemma process_log_retries:
  assumes "0 \<le> arg_lines a" and "arg_lines a < 2 ^ 52"
  shows "\<exists>evs. trace (final (fst (process_log a logfile script s))) = trace s @ evs
           \<and> retries evs \<le> retries_left (arg_lines a) (arg_lines a)"
proof (cases "skip_check a logfile s")
  case (Inl s')
  from skip_check_Inl(4,5) [OF Inl] obtain evs where
    "trace s' = trace s @ Debug_log logfile # evs" "retries (trace s') = retries (trace s)"
    by blast
  then show ?thesis
    by (intro exI [of _ "Debug_log logfile # evs"]) (simp add: process_log_def Inl)
next
  case (Inr s')
  let ?d = "destination_of a logfile"
  let ?f = "LogFileName logfile"
  let ?r = "download_loop a ?f ?d script (open_file ?d s')"
  let ?p = "process_log a logfile script s"
  from skip_check_Inr(1,4,5) [OF Inr] obtain pre where
    s': "trace s' = trace s @ pre" "retries (trace s') = retries (trace s)"
      "lines s' = arg_lines a"
    by blast
  then have pre: "retries pre = 0" by simp
  from download_loop_trace [of a ?f ?d script "open_file ?d s'"] obtain evs where
    evs: "trace (final (fst ?r)) = trace s' @ evs" by auto
  from download_loop_retries [OF assms, of ?f ?d script "open_file ?d s'"] s'
  have "retries (trace (final (fst ?r))) \<le> retries (trace s') + retries_left (arg_lines a) (arg_lines a)"
    by simp
  with evs have b: "retries evs \<le> retries_left (arg_lines a) (arg_lines a)" by simp
  have "trace (final (fst ?p)) = trace (final (fst ?r))
      \<or> trace (final (fst ?p)) = trace (final (fst ?r)) @ [Error_too_many ?f]"
    by (cases "fst ?r") (simp_all add: process_log_def Inr download_file_def Let_def)
  then show ?thesis
  proof
    assume "trace (final (fst ?p)) = trace (final (fst ?r))"
    with evs s' pre b show ?thesis by (intro exI [of _ "pre @ evs"]) simp
  next
    assume "trace (final (fst ?p)) = trace (final (fst ?r)) @ [Error_too_many ?f]"
    with evs s' pre b show ?thesis
      by (intro exI [of _ "pre @ evs @ [Error_too_many ?f]"]) simp
  qed
qed

text \<open>
  C10. The claim bounds the truncation retries at one marker by
  \<open>ceil(0.9 * initial / 10) + 1\<close> for every configured line count. For a negative count the
  bound is negative, while the number of retries is 0: configured with -100 lines, a
  file has no retry at all, and 0 is not at most -8.
\<close>

theorem retry_bound_fails_for_negative_line_count:
  "\<not> int (retries_at ''0'' ''0''
            (trace (final (fst (process_log (example_args (- 100) 10) example_log []
                                   (initial_state Map.empty))))))
       \<le> \<lceil>0.9 * of_int (arg_lines (example_args (- 100) 10)) / 10 :: rat\<rceil> + 1"
proof -
  have "\<lceil>0.9 * of_int (- 100 :: int) / 10 :: rat\<rceil> = - 9" by simp
  then show ?thesis
    by (simp add: process_log_def skip_check_def download_file_def open_file_def
        initial_state_def Let_def)
qed

text \<open>
  C10, as the code has it. For a configured count \<open>N\<close> from 0 up to \<open>2 ^ 52\<close>: among the
  events of one listed file, whatever the responses, there are at most
  \<open>ceil(9 * N / 100)\<close> truncation retries in all, hence at most
  \<open>ceil(0.9 * N / 10) + 1\<close> at any one marker. A truncated chunk that carries its keys is
  a retry exactly while the line count is above a tenth of \<open>N\<close>: the retry takes 10 off
  the count and leaves the file, the marker and the chunk counter alone; at or below a
  tenth the data is appended to the file and the marker, the flag and the chunk counter
  advance.
\<close>

theorem truncation_retries_are_bounded:
  assumes "0 \<le> arg_lines a" and "arg_lines a < 2 ^ 52"
  shows "(\<exists>evs. trace (final (fst (process_log a logfile script s))) = trace s @ evs
            \<and> int (retries evs) \<le> \<lceil>9 * of_int (arg_lines a) / 100 :: rat\<rceil>
            \<and> int (retries_at m cur evs) \<le> \<lceil>0.9 * of_int (arg_lines a) / 10 :: rat\<rceil> + 1)
       \<and> (LogFileData r = Some (Some data) \<and> endswith data truncated_sentinel
            \<and> AdditionalDataPending r = Some p \<and> Marker r = Some m' \<longrightarrow>
          (\<exists>u'. process_result a f d r u = Done u'
             \<and> (if arg_lines a < 10 * lines u
                 then lines u' = lines u - 10 \<and> fs u' = fs u \<and> marker u' = marker u
                        \<and> chunk u' = chunk u \<and> more_data u' = more_data u
                 else lines u' = lines u
                        \<and> fs u' = (fs u)(d \<mapsto> (case fs u d of None \<Rightarrow> data | Some c \<Rightarrow> c @ data))
                        \<and> marker u' = m' \<and> chunk u' = Suc (chunk u) \<and> more_data u' = p)))"
proof
  from process_log_retries [OF assms, of logfile script s] obtain evs where
    evs: "trace (final (fst (process_log a logfile script s))) = trace s @ evs"
      "retries evs \<le> retries_left (arg_lines a) (arg_lines a)"
    by blast
  from evs(2) retries_left_initial [OF assms(1)]
  have 1: "int (retries evs) \<le> \<lceil>9 * of_int (arg_lines a) / 100 :: rat\<rceil>" by linarith
  have "int (retries_at m cur evs) \<le> int (retries evs)" by (simp add: retries_at_le)
  moreover have "(0.9 * of_int (arg_lines a) / 10 :: rat) = 9 * of_int (arg_lines a) / 100"
    by simp
  ultimately have 2: "int (retries_at m cur evs) \<le> \<lceil>0.9 * of_int (arg_lines a) / 10 :: rat\<rceil> + 1"
    using 1 by simp
  from evs(1) 1 2
  show "\<exists>evs. trace (final (fst (process_log a logfile script s))) = trace s @ evs
            \<and> int (retries evs) \<le> \<lceil>9 * of_int (arg_lines a) / 100 :: rat\<rceil>
            \<and> int (retries_at m cur evs) \<le> \<lceil>0.9 * of_int (arg_lines a) / 10 :: rat\<rceil> + 1"
    by blast
next
  show "LogFileData r = Some (Some data) \<and> endswith data truncated_sentinel
            \<and> AdditionalDataPending r = Some p \<and> Marker r = Some m' \<longrightarrow>
          (\<exists>u'. process_result a f d r u = Done u'
             \<and> (if arg_lines a < 10 * lines u
                 then lines u' = lines u - 10 \<and> fs u' = fs u \<and> marker u' = marker u
                        \<and> chunk u' = chunk u \<and> more_data u' = more_data u
                 else lines u' = lines u
                        \<and> fs u' = (fs u)(d \<mapsto> (case fs u d of None \<Rightarrow> data | Some c \<Rightarrow> c @ data))
                        \<and> marker u' = m' \<and> chunk u' = Suc (chunk u) \<and> more_data u' = p))"
  proof
    assume "LogFileData r = Some (Some data) \<and> endswith data truncated_sentinel
            \<and> AdditionalDataPending r = Some p \<and> Marker r = Some m'"
    then have k: "LogFileData r = Some (Some data)" "endswith data truncated_sentinel"
      "AdditionalDataPending r = Some p" "Marker r = Some m'" by simp_all
    show "\<exists>u'. process_result a f d r u = Done u'
             \<and> (if arg_lines a < 10 * lines u
                 then lines u' = lines u - 10 \<and> fs u' = fs u \<and> marker u' = marker u
                        \<and> chunk u' = chunk u \<and> more_data u' = more_data u
                 else lines u' = lines u
                        \<and> fs u' = (fs u)(d \<mapsto> (case fs u d of None \<Rightarrow> data | Some c \<Rightarrow> c @ data))
                        \<and> marker u' = m' \<and> chunk u' = Suc (chunk u) \<and> more_data u' = p)"
      by (simp add: process_result_truncated [OF assms k] write_file_def)
  qed
qed


theorem truncation_retries_are_bounded_witness:
  "(0::int) \<le> 1000 \<and> (1000::int) < 2 ^ 52
   \<and> (\<exists>evs. trace (final (fst (process_log (example_args 1000 10) example_log
                                  [Returns truncated_response, Returns truncated_response]
                                  (initial_state Map.empty))))
               = trace (initial_state Map.empty) @ evs
            \<and> int (retries evs) \<le> 90 \<and> int (retries_at ''0'' ''0'' evs) \<le> 91)
   \<and> (\<exists>u'. process_result (example_args 1000 10) ''error/mysql.log'' ''out/mysql.log''
               truncated_response
               (open_file ''out/mysql.log'' ((initial_state Map.empty)\<lparr>lines := 100\<rparr>))
             = Done u'
          \<and> lines u' = 100 \<and> fs u' = [''out/mysql.log'' \<mapsto> ''ab'' @ truncated_sentinel]
          \<and> marker u' = ''7'' \<and> chunk u' = 1 \<and> more_data u')"
proof -
  have "0 \<le> arg_lines (example_args 1000 10)" "arg_lines (example_args 1000 10) < 2 ^ 52"
    by simp_all
  from truncation_retries_are_bounded
         [OF this, of example_log "[Returns truncated_response, Returns truncated_response]"
            "initial_state Map.empty" "''0''" "''0''" truncated_response
            "''ab'' @ truncated_sentinel" True "''7''" "''error/mysql.log''" "''out/mysql.log''"
            "open_file ''out/mysql.log'' ((initial_state Map.empty)\<lparr>lines := 100\<rparr>)"]
  show ?thesis
    by (simp add: truncated_response_def chunk_response_def endswith_def
          truncated_sentinel_def initial_state_def
        del: download_loop.simps)
qed

section \<open>Retries with backoff\<close>

lemma failed_attempts_simps [simp]:
  "fs (failed_attempts pre k s) = fs s" "lines (failed_attempts pre k s) = lines s"
  "chunk (failed_attempts pre k s) = chunk s" "more_data (failed_attempts pre k s) = more_data s"
  "marker (failed_attempts pre k s) = marker s"
  "sleepcount (failed_attempts pre k s) = sleepcount s + k"
  by (induction k arbitrary: s) simp_all

lemma failed_attempts_calls [simp]:
  "calls (trace (failed_attempts pre k s)) = calls (trace s) + k * calls pre"
  by (induction k arbitrary: s) simp_all

lemma failed_attempts_sleeps:
  "sleeps pre = [] \<Longrightarrow>
   sleeps (trace (failed_attempts pre k s))
     = sleeps (trace s) @ map (\<lambda>i. 2 ^ i) [sleepcount s ..< sleepcount s + k]"
proof (induction k arbitrary: s)
  case 0
  then show ?case by simp
next
  case (Suc k)
  have "[sleepcount s ..< sleepcount s + Suc k]
          = sleepcount s # [Suc (sleepcount s) ..< Suc (sleepcount s) + k]"
    by (simp add: upt_rec)
  with Suc show ?case by simp
qed

lemma emit_twice: "emit e' (emit e s) = s\<lparr>trace := trace s @ [e, e']\<rparr>"
  by (simp add: emit_def)

text \<open>
  While the counter stays below the configured maximum and the power of two is
  representable, \<open>k\<close> failures in a row are \<open>k\<close> failed attempts, and the loop goes on.
\<close>

lemma describe_loop_failures:
  assumes "int (sleepcount s + k) \<le> arg_backoff a" and "sleepcount s + k \<le> 1024"
  shows "describe_loop a (replicate k Raises @ xs) s
           = describe_loop a xs (failed_attempts (describe_attempt a) k s)"
  using assms
proof (induction k arbitrary: s)
  case 0
  then show ?case by simp
next
  case (Suc k)
  let ?s1 = "slept (s\<lparr>trace := trace s @ describe_attempt a\<rparr>)"
  have e: "emit Call_raised (emit (Call_describe (arg_instance a)) s)
             = s\<lparr>trace := trace s @ describe_attempt a\<rparr>"
    by (simp add: emit_twice describe_attempt_def)
  from Suc.prems have "int (sleepcount ?s1 + k) \<le> arg_backoff a" "sleepcount ?s1 + k \<le> 1024"
    by simp_all
  from Suc.IH [OF this] Suc.prems show ?case
    by (simp add: backoff_sleep_eq e)
qed

lemma download_attempt_cong:
  "marker t = marker s \<Longrightarrow> chunk t = chunk s \<Longrightarrow> lines t = lines s \<Longrightarrow>
   download_attempt a f t = download_attempt a f s"
  by (simp add: download_attempt_def)

lemma download_loop_failures:
  assumes "more_data s" and "int (sleepcount s + k) \<le> arg_backoff a"
    and "sleepcount s + k \<le> 1024"
  shows "download_loop a f d (replicate k Raises @ xs) s
           = download_loop a f d xs (failed_attempts (download_attempt a f s) k s)"
  using assms
proof (induction k arbitrary: s)
  case 0
  then show ?case by simp
next
  case (Suc k)
  let ?s1 = "slept (s\<lparr>trace := trace s @ download_attempt a f s\<rparr>)"
  have e: "emit Call_raised (request_chunk a f s)
             = s\<lparr>trace := trace s @ download_attempt a f s\<rparr>"
    by (simp add: request_chunk_def emit_def download_attempt_def)
  have c: "download_attempt a f ?s1 = download_attempt a f s"
    by (rule download_attempt_cong) simp_all
  from Suc.prems have "more_data ?s1" "int (sleepcount ?s1 + k) \<le> arg_backoff a"
    "sleepcount ?s1 + k \<le> 1024"
    by simp_all
  from Suc.IH [OF this] Suc.prems show ?case
    by (simp add: backoff_sleep_eq e c)
qed

lemma describe_loop_stop:
  "\<not> int (sleepcount s) < arg_backoff a \<Longrightarrow> describe_loop a xs s = Done (s, None)"
  by (cases xs) simp_all

lemma download_loop_stop:
  "\<not> (more_data s \<and> int (sleepcount s) < arg_backoff a) \<Longrightarrow>
   download_loop a f d xs s = (Done s, xs)"
  by (cases xs) auto

lemma replicate_1025: "replicate 1025 x = replicate 1024 x @ [x]"
proof -
  have "replicate 1025 x = replicate (Suc 1024) x" by simp
  then show ?thesis by (simp only: replicate_Suc replicate_append_same)
qed

text \<open>
  C4. The claim: for every configured maximum \<open>N\<close>, \<open>N\<close> failures in a row end the scope
  in the exhausted outcome, with an error reported. The sleep before each retry is
  computed by \<open>math.pow(2, sleepcount)\<close>, a double: at the 1025th failure in a row
  \<open>math.pow(2, 1024)\<close> raises \<open>OverflowError\<close> inside the exception handler. Configured
  with 1025 attempts, a listing that fails 1025 times ends the run in that exception,
  and no error about the listing is reported.
\<close>

theorem many_failures_end_in_OverflowError:
  "main (example_args 1000 1025) (replicate 1025 Raises) [] Map.empty
     = Crashed OverflowError
         (emit Call_raised (emit (Call_describe ''db'')
            (failed_attempts (describe_attempt (example_args 1000 1025)) 1024
               (initial_state Map.empty))))"
proof -
  let ?a = "example_args 1000 1025"
  let ?s = "failed_attempts (describe_attempt ?a) 1024 (initial_state Map.empty)"
  have "describe_loop ?a (replicate 1024 Raises @ [Raises]) (initial_state Map.empty)
          = describe_loop ?a [Raises] ?s"
    by (rule describe_loop_failures) (simp_all add: initial_state_def)
  moreover have "sleepcount ?s = 1024" by (simp add: initial_state_def)
  ultimately show ?thesis
    by (simp add: main_def replicate_1025 backoff_sleep_eq)
qed

text \<open>
  C4, as the code has it, for a configured maximum \<open>N\<close> from 1 to 1024. The listing:
  after \<open>N - 1\<close> failures and a success the listed files are processed; after \<open>N\<close>
  failures the error is logged and the run is over, with \<open>N\<close> calls made, whatever the
  script still holds. A chunk, in a loop that is running with its counter at 0: after
  \<open>N - 1\<close> failures and a success the response is handled and the loop goes on from the
  result; after \<open>N\<close> failures the loop is over with the rest of the script untouched, and
  a file that fails \<open>N\<close> times from its first request gets the error that names it.
\<close>

theorem retries_succeed_or_exhaust:
  assumes "arg_backoff a = int N" and "1 \<le> N" and "N \<le> 1024"
  shows "main a (replicate (N - 1) Raises @ Returns logs # ls) cs files
           = fst (for_logs a logs cs
                    (emit Call_returned (emit (Call_describe (arg_instance a))
                       (failed_attempts (describe_attempt a) (N - 1) (initial_state files)))))
       \<and> main a (replicate N Raises @ ls) cs files
           = Done (emit (Error_describing (arg_instance a))
                     (failed_attempts (describe_attempt a) N (initial_state files)))
       \<and> calls (trace (final (main a (replicate N Raises @ ls) cs files))) = N
       \<and> (more_data s \<and> sleepcount s = 0 \<longrightarrow>
            download_loop a f d (replicate (N - 1) Raises @ Returns r # xs) s
              = (case process_result a f d r
                        (emit Call_returned (request_chunk a f
                           (failed_attempts (download_attempt a f s) (N - 1) s))) of
                   Done s' \<Rightarrow> download_loop a f d xs s'
                 | Crashed e s' \<Rightarrow> (Crashed e s', xs)
                 | Starved s' \<Rightarrow> (Starved s', xs)))
       \<and> (more_data s \<and> sleepcount s = 0 \<longrightarrow>
            download_loop a f d (replicate N Raises @ xs) s
              = (Done (failed_attempts (download_attempt a f s) N s), xs))
       \<and> download_file a f d (replicate N Raises @ xs) s
           = (Done (emit (Error_too_many f)
                      (failed_attempts (download_attempt a f (open_file d s)) N (open_file d s))),
              xs)"
proof -
  let ?s0 = "initial_state files"
  have s0: "sleepcount ?s0 = 0" by (simp add: initial_state_def)
  have ne: "N - Suc 0 \<noteq> N" "N - Suc 0 < N" using assms by simp_all
  have l1: "describe_loop a (replicate (N - 1) Raises @ Returns logs # ls) ?s0
              = describe_loop a (Returns logs # ls)
                  (failed_attempts (describe_attempt a) (N - 1) ?s0)"
    using assms by (intro describe_loop_failures) (simp_all add: s0)
  have 1: "main a (replicate (N - 1) Raises @ Returns logs # ls) cs files
           = fst (for_logs a logs cs
                    (emit Call_returned (emit (Call_describe (arg_instance a))
                       (failed_attempts (describe_attempt a) (N - 1) ?s0))))"
    unfolding main_def l1 using assms by (simp add: s0 ne)
  have l2: "describe_loop a (replicate N Raises @ ls) ?s0
              = describe_loop a ls (failed_attempts (describe_attempt a) N ?s0)"
    using assms by (intro describe_loop_failures) (simp_all add: s0)
  have 2: "main a (replicate N Raises @ ls) cs files
           = Done (emit (Error_describing (arg_instance a))
                     (failed_attempts (describe_attempt a) N ?s0))"
    using assms by (simp add: main_def l2 describe_loop_stop s0)
  have 3: "calls (trace (final (main a (replicate N Raises @ ls) cs files))) = N"
    by (simp add: 2 describe_attempt_def initial_state_def)
  have d: "download_loop a f d (replicate k Raises @ ys) u
             = download_loop a f d ys (failed_attempts (download_attempt a f u) k u)"
    if "more_data u" "sleepcount u = 0" "k \<le> N" for k ys u
    using that assms by (intro download_loop_failures) simp_all
  have 4: "download_loop a f d (replicate (N - 1) Raises @ Returns r # xs) s
              = (case process_result a f d r
                        (emit Call_returned (request_chunk a f
                           (failed_attempts (download_attempt a f s) (N - 1) s))) of
                   Done s' \<Rightarrow> download_loop a f d xs s'
                 | Crashed e s' \<Rightarrow> (Crashed e s', xs)
                 | Starved s' \<Rightarrow> (Starved s', xs))"
    if "more_data s" "sleepcount s = 0"
  proof -
    have d4: "download_loop a f d (replicate (N - 1) Raises @ Returns r # xs) s
                = download_loop a f d (Returns r # xs)
                    (failed_attempts (download_attempt a f s) (N - 1) s)"
      using that by (intro d) simp_all
    show ?thesis unfolding d4 using that assms by (simp add: ne)
  qed
  have 5: "download_loop a f d (replicate N Raises @ ys) u
              = (Done (failed_attempts (download_attempt a f u) N u), ys)"
    if "more_data u" "sleepcount u = 0" for ys u
    using that assms by (simp add: d download_loop_stop)
  have 6: "download_file a f d (replicate N Raises @ xs) s
           = (Done (emit (Error_too_many f)
                      (failed_attempts (download_attempt a f (open_file d s)) N (open_file d s))),
              xs)"
    using assms by (simp add: download_file_def 5 Let_def)
  from 1 2 3 4 5 [of s xs] 6 show ?thesis by blast
qed

theorem retries_succeed_or_exhaust_witness:
  "main (example_args 1000 3) (replicate 3 Raises @ [Returns [example_log]]) [] Map.empty
     = Done (emit (Error_describing ''db'')
               (failed_attempts (describe_attempt (example_args 1000 3)) 3
                  (initial_state Map.empty)))
   \<and> calls (trace (final (main (example_args 1000 3)
                (replicate 3 Raises @ [Returns [example_log]]) [] Map.empty))) = 3
   \<and> download_loop (example_args 1000 3) ''error/mysql.log'' ''out/mysql.log''
        (replicate 3 Raises @ [Returns (chunk_response ''abcdefg'' False ''1'')])
        (open_file ''out/mysql.log'' (initial_state Map.empty))
       = (Done (failed_attempts
                  (download_attempt (example_args 1000 3) ''error/mysql.log''
                     (open_file ''out/mysql.log'' (initial_state Map.empty))) 3
                  (open_file ''out/mysql.log'' (initial_state Map.empty))),
          [Returns (chunk_response ''abcdefg'' False ''1'')])
   \<and> fs (final (fst (download_loop (example_args 1000 3) ''error/mysql.log'' ''out/mysql.log''
                       (replicate 2 Raises @ [Returns (chunk_response ''abcdefg'' False ''1'')])
                       (open_file ''out/mysql.log'' (initial_state Map.empty)))))
        ''out/mysql.log'' = Some ''abcdefg''"
proof -
  let ?a = "example_args 1000 3"
  let ?s = "open_file ''out/mysql.log'' (initial_state Map.empty)"
  let ?r = "chunk_response ''abcdefg'' False ''1''"
  have h: "arg_backoff ?a = int 3" "1 \<le> (3::nat)" "(3::nat) \<le> 1024" by simp_all
  have s: "more_data ?s \<and> sleepcount ?s = 0" by simp
  note t = retries_succeed_or_exhaust
             [OF h, where s = ?s and f = "''error/mysql.log''" and d = "''out/mysql.log''"
                and r = ?r and xs = "[]"]
  have 1: "main ?a (replicate 3 Raises @ [Returns [example_log]]) [] Map.empty
     = Done (emit (Error_describing ''db'')
               (failed_attempts (describe_attempt ?a) 3 (initial_state Map.empty)))"
    using retries_succeed_or_exhaust
            [OF h, where ls = "[Returns [example_log]]" and cs = "[]" and files = Map.empty]
    by simp
  have 2: "calls (trace (final (main ?a (replicate 3 Raises @ [Returns [example_log]]) []
                                  Map.empty))) = 3"
    by (simp add: 1 describe_attempt_def initial_state_def)
  have 3: "download_loop ?a ''error/mysql.log'' ''out/mysql.log''
             (replicate 3 Raises @ [Returns ?r]) ?s
           = (Done (failed_attempts (download_attempt ?a ''error/mysql.log'' ?s) 3 ?s),
              [Returns ?r])"
    using retries_succeed_or_exhaust
            [OF h, where s = ?s and f = "''error/mysql.log''" and d = "''out/mysql.log''"
               and xs = "[Returns ?r]"] s
    by blast
  have "download_loop ?a ''error/mysql.log'' ''out/mysql.log''
          (replicate (3 - 1) Raises @ [Returns ?r]) ?s
        = (case process_result ?a ''error/mysql.log'' ''out/mysql.log'' ?r
                  (emit Call_returned (request_chunk ?a ''error/mysql.log''
                     (failed_attempts (download_attempt ?a ''error/mysql.log'' ?s) (3 - 1) ?s))) of
             Done s' \<Rightarrow> download_loop ?a ''error/mysql.log'' ''out/mysql.log'' [] s'
           | Crashed e s' \<Rightarrow> (Crashed e s', [])
           | Starved s' \<Rightarrow> (Starved s', []))"
    using t s by blast
  moreover have "(3::nat) - 1 = 2" by simp
  ultimately have 4: "fs (final (fst (download_loop ?a ''error/mysql.log'' ''out/mysql.log''
                       (replicate 2 Raises @ [Returns ?r]) ?s))) ''out/mysql.log''
                     = Some ''abcdefg''"
    by (simp add: process_result_def advance_def chunk_response_def write_file_def Let_def)
  from 1 2 3 4 show ?thesis by blast
qed

section \<open>Responses that lack a key\<close>

text \<open>
  C3. The claim: a successful response without the pending flag is read as "no more
  data" and the loop of the file ends normally. Line 155 does read an absent flag as
  false, but line 141 has already formatted \<open>result['AdditionalDataPending']\<close> for the
  log: whatever else the response holds, \<open>KeyError\<close> leaves \<open>_main\<close> before the data is
  looked at. The second part runs the program on one file whose only response has the
  data and the marker but no flag: the run ends in the exception, the file is empty and
  \<open>more_data\<close> is still true.
\<close>

theorem absent_pending_flag_raises_KeyError:
  "process_result a logfilename destination
       \<lparr>LogFileData = d, AdditionalDataPending = None, Marker = m\<rparr> s
     = Crashed (KeyError ''AdditionalDataPending'') (s\<lparr>sleepcount := 0\<rparr>)
   \<and> (case main (example_args 1000 10) [Returns [example_log]]
              [Returns \<lparr>LogFileData = Some (Some ''abcdefg''), AdditionalDataPending = None,
                        Marker = Some ''1''\<rparr>] Map.empty of
          Crashed e s' \<Rightarrow>
            e = KeyError ''AdditionalDataPending'' \<and> fs s' ''out/mysql.log'' = Some []
              \<and> more_data s'
        | _ \<Rightarrow> False)"
proof
  show "process_result a logfilename destination
       \<lparr>LogFileData = d, AdditionalDataPending = None, Marker = m\<rparr> s
     = Crashed (KeyError ''AdditionalDataPending'') (s\<lparr>sleepcount := 0\<rparr>)"
    by (simp add: process_result_def)
next
  show "case main (example_args 1000 10) [Returns [example_log]]
              [Returns \<lparr>LogFileData = Some (Some ''abcdefg''), AdditionalDataPending = None,
                        Marker = Some ''1''\<rparr>] Map.empty of
          Crashed e s' \<Rightarrow>
            e = KeyError ''AdditionalDataPending'' \<and> fs s' ''out/mysql.log'' = Some []
              \<and> more_data s'
        | _ \<Rightarrow> False"
    by (simp add: main_def initial_state_def process_log_def skip_check_def
        download_file_def open_file_def request_chunk_def process_result_def Let_def)
qed

text \<open>
  C1. The claim: a successful response without a data field is logged as an error and
  the loop goes on to the next iteration. The error is logged, and the flag, the marker
  and the chunk counter are advanced, but line 159 then deletes the key
  \<open>LogFileData\<close> from the response, and \<open>del\<close> of an absent key raises \<open>KeyError\<close>. The
  second part runs the program on two responses, the first without the data field: the
  run ends in the exception and the second response is never asked for.
\<close>

theorem absent_data_field_raises_KeyError:
  "process_result a logfilename destination
       \<lparr>LogFileData = None, AdditionalDataPending = Some p, Marker = Some m\<rparr> s
     = Crashed (KeyError ''LogFileData'')
         ((emit (Error_no_data logfilename) (emit (Info_pending p m) (s\<lparr>sleepcount := 0\<rparr>)))
            \<lparr>more_data := p, marker := m, chunk := Suc (chunk s)\<rparr>)
   \<and> (case main (example_args 1000 10) [Returns [example_log]]
              [Returns \<lparr>LogFileData = None, AdditionalDataPending = Some True,
                        Marker = Some ''1''\<rparr>,
               Returns (chunk_response ''abcdefg'' False ''2'')] Map.empty of
          Crashed e s' \<Rightarrow>
            e = KeyError ''LogFileData'' \<and> fs s' ''out/mysql.log'' = Some []
              \<and> calls (trace s') = 2
        | _ \<Rightarrow> False)"
proof
  show "process_result a logfilename destination
       \<lparr>LogFileData = None, AdditionalDataPending = Some p, Marker = Some m\<rparr> s
     = Crashed (KeyError ''LogFileData'')
         ((emit (Error_no_data logfilename) (emit (Info_pending p m) (s\<lparr>sleepcount := 0\<rparr>)))
            \<lparr>more_data := p, marker := m, chunk := Suc (chunk s)\<rparr>)"
    by (simp add: process_result_def advance_def Let_def emit_def)
next
  show "case main (example_args 1000 10) [Returns [example_log]]
              [Returns \<lparr>LogFileData = None, AdditionalDataPending = Some True,
                        Marker = Some ''1''\<rparr>,
               Returns (chunk_response ''abcdefg'' False ''2'')] Map.empty of
          Crashed e s' \<Rightarrow>
            e = KeyError ''LogFileData'' \<and> fs s' ''out/mysql.log'' = Some []
              \<and> calls (trace s') = 2
        | _ \<Rightarrow> False"
    by (simp add: main_def initial_state_def process_log_def skip_check_def
        download_file_def open_file_def request_chunk_def process_result_def advance_def
        Let_def)
qed

end
